theory Spec2Isabelle
  imports Complex_Main "HOL-Library.Word"
begin

section \<open>JavaScript strings\<close>

text \<open>
  A JavaScript string is a sequence of 16-bit code units. String literals of the source are
  written \<open>js ''...''\<close>.
\<close>

type_synonym jschar = "16 word"
type_synonym jsstring = "jschar list"
type_synonym bytes = "8 word list"

definition js :: "string \<Rightarrow> jsstring" where
  "js s = map of_char s"

text \<open>
  \<open>String.prototype.trim\<close> strips the code points of WhiteSpace and LineTerminator
  (ECMA-262), all of them single code units, from both ends.
\<close>

definition isWhiteSpace :: "jschar \<Rightarrow> bool" where
  "isWhiteSpace c \<longleftrightarrow>
     c \<in> set [0x0009, 0x000A, 0x000B, 0x000C, 0x000D, 0x0020, 0x00A0, 0x1680,
                0x2028, 0x2029, 0x202F, 0x205F, 0x3000, 0xFEFF]
     \<or> (0x2000 \<le> c \<and> c \<le> 0x200A)"

definition trim :: "jsstring \<Rightarrow> jsstring" where
  "trim s = rev (dropWhile isWhiteSpace (rev (dropWhile isWhiteSpace s)))"

text \<open>\<open>s.split(sep)\<close> for a separator of one code unit; \<open>"".split(",")\<close> is \<open>[""]\<close>.\<close>

fun split :: "'a \<Rightarrow> 'a list \<Rightarrow> 'a list list" where
  "split sep [] = [[]]"
| "split sep (c # cs) =
     (if c = sep then [] # split sep cs
      else (case split sep cs of [] \<Rightarrow> [[c]] | p # ps \<Rightarrow> (c # p) # ps))"

text \<open>\<open>xs.join(sep)\<close> for a separator of one code unit.\<close>

fun join :: "'a \<Rightarrow> 'a list list \<Rightarrow> 'a list" where
  "join sep [] = []"
| "join sep [x] = x"
| "join sep (x # y # ys) = x @ sep # join sep (y # ys)"

fun startsWith :: "'a list \<Rightarrow> 'a list \<Rightarrow> bool" where
  "startsWith s [] = True"
| "startsWith [] (p # ps) = False"
| "startsWith (c # cs) (p # ps) = (c = p \<and> startsWith cs ps)"

text \<open>\<open>s.includes(t)\<close>: \<open>t\<close> occurs in \<open>s\<close> as a substring.\<close>

fun includes_str :: "'a list \<Rightarrow> 'a list \<Rightarrow> bool" where
  "includes_str [] t = (t = [])"
| "includes_str (c # cs) t = (startsWith (c # cs) t \<or> includes_str cs t)"

text \<open>
  \<open>String.prototype.toLowerCase\<close>. On a string of ASCII code units it maps \<open>A\<close>..\<open>Z\<close> to
  \<open>a\<close>..\<open>z\<close> and leaves the rest alone. On any other string the Unicode case mapping of
  the runtime applies, which is a parameter here.
\<close>

definition asciiLower :: "jschar \<Rightarrow> jschar" where
  "asciiLower c = (if 0x41 \<le> c \<and> c \<le> 0x5A then c + 0x20 else c)"

definition toLowerCase :: "(jsstring \<Rightarrow> jsstring) \<Rightarrow> jsstring \<Rightarrow> jsstring" where
  "toLowerCase unicodeLower s =
     (if list_all (\<lambda>c. c < 0x80) s then map asciiLower s else unicodeLower s)"


section \<open>Regular expressions\<close>

text \<open>
  The pattern of \<open>isValidEmail\<close> has no flags, no groups that capture and no
  back-references, and is anchored by \<open>^\<close> and \<open>$\<close> at both ends: \<open>test\<close> asks whether
  the whole string belongs to the pattern's language. The matcher takes Brzozowski
  derivatives.
\<close>

datatype regex =
    Zero
  | One
  | Chr jschar
  | Class "(jschar \<times> jschar) list"
  | Alt regex regex
  | Seq regex regex
  | Star regex

definition inClass :: "(jschar \<times> jschar) list \<Rightarrow> jschar \<Rightarrow> bool" where
  "inClass rs c = list_ex (\<lambda>(lo, hi). lo \<le> c \<and> c \<le> hi) rs"

fun nullable :: "regex \<Rightarrow> bool" where
  "nullable Zero = False"
| "nullable One = True"
| "nullable (Chr a) = False"
| "nullable (Class rs) = False"
| "nullable (Alt r s) = (nullable r \<or> nullable s)"
| "nullable (Seq r s) = (nullable r \<and> nullable s)"
| "nullable (Star r) = True"

fun deriv :: "jschar \<Rightarrow> regex \<Rightarrow> regex" where
  "deriv c Zero = Zero"
| "deriv c One = Zero"
| "deriv c (Chr a) = (if c = a then One else Zero)"
| "deriv c (Class rs) = (if inClass rs c then One else Zero)"
| "deriv c (Alt r s) = Alt (deriv c r) (deriv c s)"
| "deriv c (Seq r s) =
     (if nullable r then Alt (Seq (deriv c r) s) (deriv c s) else Seq (deriv c r) s)"
| "deriv c (Star r) = Seq (deriv c r) (Star r)"

fun matches :: "regex \<Rightarrow> jsstring \<Rightarrow> bool" where
  "matches r [] = nullable r"
| "matches r (c # cs) = matches (deriv c r) cs"

text \<open>The quantifiers \<open>+\<close> and \<open>{2,}\<close>.\<close>

definition Plus :: "regex \<Rightarrow> regex" where
  "Plus r = Seq r (Star r)"

definition AtLeast2 :: "regex \<Rightarrow> regex" where
  "AtLeast2 r = Seq r (Seq r (Star r))"

text \<open>
  The character classes \<open>[a-zA-Z0-9_'^&+\-]\<close>, \<open>[a-zA-Z0-9-]\<close> and \<open>[a-zA-Z]\<close>, as ranges
  of code units.
\<close>

definition localRanges :: "(jschar \<times> jschar) list" where
  "localRanges = [(0x61, 0x7A), (0x41, 0x5A), (0x30, 0x39), (0x5F, 0x5F), (0x27, 0x27),
                  (0x5E, 0x5E), (0x26, 0x26), (0x2B, 0x2B), (0x2D, 0x2D)]"

definition labelRanges :: "(jschar \<times> jschar) list" where
  "labelRanges = [(0x61, 0x7A), (0x41, 0x5A), (0x30, 0x39), (0x2D, 0x2D)]"

definition letterRanges :: "(jschar \<times> jschar) list" where
  "letterRanges = [(0x61, 0x7A), (0x41, 0x5A)]"

abbreviation DOT :: jschar where "DOT \<equiv> 0x2E"
abbreviation AT :: jschar where "AT \<equiv> 0x40"
abbreviation COMMA :: jschar where "COMMA \<equiv> 0x2C"

text \<open>
  \<^verbatim>\<open>/^(?:[a-zA-Z0-9_'^&+\-])+(?:\.(?:[a-zA-Z0-9_'^&+\-])+)*@(?:[a-zA-Z0-9-]+\.)+[a-zA-Z]{2,}$/\<close>
\<close>

definition emailRegex :: regex where
  "emailRegex =
     Seq (Plus (Class localRanges))
    (Seq (Star (Seq (Chr DOT) (Plus (Class localRanges))))
    (Seq (Chr AT)
    (Seq (Plus (Seq (Plus (Class labelRanges)) (Chr DOT)))
         (AtLeast2 (Class letterRanges)))))"

text \<open>\<open>isValidEmail\<close>, the same function in the page and in the route.\<close>

definition isValidEmail :: "jsstring \<Rightarrow> bool" where
  "isValidEmail email = matches emailRegex (trim email)"


section \<open>The Dispatcher (\<open>route.ts\<close>)\<close>

subsection \<open>Data\<close>

text \<open>A thrown value: an \<open>Error\<close> with its message, or anything else.\<close>

datatype thrown = Error jsstring | NotAnError

text \<open>
  A number. Only \<open>587\<close>, lengths, the numbers of a JSON body and the results of \<open>Number\<close>
  occur; negative zero is not told apart from zero.
\<close>

datatype jsnumber = NaN | PosInfinity | NegInfinity | Finite rat

text \<open>
  A value as \<open>req.json()\<close> gives it, and \<open>undefined\<close> for a property that is not there.
  The properties of an object are listed with their values, each name once. The casts
  of \<open>parseRequest\<close> check nothing, so its fields hold such values, whatever their
  declared types say.
\<close>

datatype jsvalue =
    JUndefined
  | JNull
  | JBool bool
  | JNum jsnumber
  | JStr jsstring
  | JArr "jsvalue list"
  | JObj "(jsstring \<times> jsvalue) list"

text \<open>A \<open>File\<close>: its name, its type, and the bytes \<open>arrayBuffer()\<close> resolves to.\<close>

record File =
  file_name :: jsstring
  file_type :: jsstring
  file_bytes :: bytes

datatype FormDataEntryValue = StringEntry jsstring | FileEntry File

type_synonym FormData = "(jsstring \<times> FormDataEntryValue) list"

text \<open>\<open>form.get(name)\<close> is the first entry of that name or \<open>null\<close>; \<open>form.getAll(name)\<close> is all of them.\<close>

definition form_get :: "FormData \<Rightarrow> jsstring \<Rightarrow> FormDataEntryValue option" where
  "form_get form name = map_of form name"

definition form_getAll :: "FormData \<Rightarrow> jsstring \<Rightarrow> FormDataEntryValue list" where
  "form_getAll form name = map snd (filter (\<lambda>e. fst e = name) form)"

record ParsedEmailFields =
  f_from :: jsvalue
  f_to :: jsvalue
  f_subject :: jsvalue
  f_bodyHtml :: jsvalue

record attachment =
  filename :: jsvalue
  content :: bytes
  contentType :: jsvalue

text \<open>
  A request, as the handler observes it: the \<open>content-type\<close> header, and what
  \<open>req.formData()\<close> and \<open>req.json()\<close> resolve to or reject with.
\<close>

record request =
  content_type :: "jsstring option"
  formData :: "thrown + FormData"
  json :: "thrown + jsvalue"

record transport_options =
  host :: jsstring
  port :: jsnumber
  secure :: bool
  auth_user :: jsstring
  auth_pass :: jsstring

record mail =
  mail_from :: jsvalue
  mail_to :: jsstring
  mail_subject :: jsvalue
  mail_html :: jsvalue
  mail_attachments :: "attachment list"

record sent_info =
  messageId :: jsstring

text \<open>
  What the handler calls and does not define: the Unicode part of \<open>toLowerCase\<close>;
  \<open>Number\<close> on a string; \<open>Buffer.from(_, "base64")\<close>, on a string and on any other
  value (where it may throw); the text of the engine's \<open>TypeError\<close> for an expression
  and the value it failed on; \<open>ToString\<close> on a value that is neither a string nor
  \<open>null\<close> nor \<open>undefined\<close>; and nodemailer's \<open>createTransport\<close> (\<open>Some e\<close> when it throws
  \<open>e\<close>) and \<open>sendMail\<close> (\<open>Inl e\<close> when it rejects with \<open>e\<close>).
\<close>

record runtime =
  unicodeLower :: "jsstring \<Rightarrow> jsstring"
  numberOf :: "jsstring \<Rightarrow> jsnumber"
  base64 :: "jsstring \<Rightarrow> bytes"
  bufferFromOther :: "jsvalue \<Rightarrow> thrown + bytes"
  typeErrorMessage :: "jsstring \<Rightarrow> jsvalue \<Rightarrow> jsstring"
  toStringOther :: "jsvalue \<Rightarrow> jsstring"
  createTransport :: "transport_options \<Rightarrow> thrown option"
  sendMail :: "transport_options \<Rightarrow> mail \<Rightarrow> thrown + sent_info"

text \<open>The calls made on nodemailer, in order.\<close>

datatype call = CreateTransport transport_options | SendMail transport_options mail

datatype response_body = ErrorBody jsstring | SuccessBody jsstring

record response =
  status :: nat
  body :: response_body

type_synonym env = "jsstring \<Rightarrow> jsstring option"

subsection \<open>Values at run time\<close>

text \<open>\<open>!!v\<close>.\<close>

fun truthy :: "jsvalue \<Rightarrow> bool" where
  "truthy JUndefined = False"
| "truthy JNull = False"
| "truthy (JBool b) = b"
| "truthy (JNum n) = (n \<noteq> NaN \<and> n \<noteq> Finite 0)"
| "truthy (JStr s) = (s \<noteq> [])"
| "truthy (JArr xs) = True"
| "truthy (JObj ps) = True"

text \<open>\<open>v || d\<close>.\<close>

definition or_else :: "jsvalue \<Rightarrow> jsvalue \<Rightarrow> jsvalue" where
  "or_else v d = (if truthy v then v else d)"

text \<open>The \<open>TypeError\<close> the engine throws when the expression \<open>what\<close> fails on \<open>v\<close>.\<close>

definition type_error :: "runtime \<Rightarrow> string \<Rightarrow> jsvalue \<Rightarrow> thrown" where
  "type_error rt what v = Error (typeErrorMessage rt (js what) v)"

text \<open>One step after another, the first throw ending the sequence.\<close>

definition and_then :: "thrown + 'a \<Rightarrow> ('a \<Rightarrow> thrown + 'b) \<Rightarrow> thrown + 'b" where
  "and_then r f = (case r of Inl e \<Rightarrow> Inl e | Inr x \<Rightarrow> f x)"

text \<open>
  \<open>v.name\<close> for the names the handler reads from the body (\<open>from\<close>, \<open>to\<close>, \<open>subject\<close>,
  \<open>bodyHtml\<close>, \<open>attachments\<close>, \<open>filename\<close>, \<open>content\<close>, \<open>contentType\<close>), which no
  built-in prototype defines: it throws on \<open>null\<close> and \<open>undefined\<close>, reads the property
  of an object, and is \<open>undefined\<close> on anything else.
\<close>

definition own :: "(jsstring \<times> jsvalue) list \<Rightarrow> string \<Rightarrow> jsvalue" where
  "own ps name = (case map_of ps (js name) of None \<Rightarrow> JUndefined | Some v \<Rightarrow> v)"

fun property :: "runtime \<Rightarrow> jsvalue \<Rightarrow> string \<Rightarrow> thrown + jsvalue" where
  "property rt JUndefined name = Inl (type_error rt name JUndefined)"
| "property rt JNull name = Inl (type_error rt name JNull)"
| "property rt (JObj ps) name = Inr (own ps name)"
| "property rt v name = Inr JUndefined"

text \<open>\<open>v.length\<close>: arrays and strings have one.\<close>

fun length_of :: "runtime \<Rightarrow> jsvalue \<Rightarrow> thrown + jsvalue" where
  "length_of rt (JArr xs) = Inr (JNum (Finite (of_nat (length xs))))"
| "length_of rt (JStr s) = Inr (JNum (Finite (of_nat (length s))))"
| "length_of rt v = property rt v ''length''"

text \<open>
  \<open>isValidEmail\<close> as the handler calls it, on a value of any kind: only a string has
  \<open>trim\<close>, on anything else the call throws.
\<close>

fun isValidEmail_value :: "runtime \<Rightarrow> jsvalue \<Rightarrow> thrown + bool" where
  "isValidEmail_value rt (JStr s) = Inr (isValidEmail s)"
| "isValidEmail_value rt v = Inl (type_error rt ''email.trim'' v)"

text \<open>
  \<open>to.every(isValidEmail)\<close>: on an array the entries are tested in order up to the first
  that fails or throws; nothing else has a callable \<open>every\<close>.
\<close>

fun every_isValidEmail :: "runtime \<Rightarrow> jsvalue list \<Rightarrow> thrown + bool" where
  "every_isValidEmail rt [] = Inr True"
| "every_isValidEmail rt (x # xs) =
     and_then (isValidEmail_value rt x)
       (\<lambda>valid. if valid then every_isValidEmail rt xs else Inr False)"

fun every :: "runtime \<Rightarrow> jsvalue \<Rightarrow> thrown + bool" where
  "every rt (JArr xs) = every_isValidEmail rt xs"
| "every rt v = Inl (type_error rt ''to.every'' v)"

text \<open>
  \<open>to.join(",")\<close>: on an array, the entries as strings (\<open>null\<close> and \<open>undefined\<close> as the
  empty string); nothing else has a callable \<open>join\<close>.
\<close>

fun entry_string :: "runtime \<Rightarrow> jsvalue \<Rightarrow> jsstring" where
  "entry_string rt (JStr s) = s"
| "entry_string rt JUndefined = []"
| "entry_string rt JNull = []"
| "entry_string rt v = toStringOther rt v"

fun join_value :: "runtime \<Rightarrow> jsvalue \<Rightarrow> thrown + jsstring" where
  "join_value rt (JArr xs) = Inr (join COMMA (map (entry_string rt) xs))"
| "join_value rt v = Inl (type_error rt ''to.join'' v)"

text \<open>\<open>Buffer.from(v, "base64")\<close>.\<close>

fun Buffer_from_base64 :: "runtime \<Rightarrow> jsvalue \<Rightarrow> thrown + bytes" where
  "Buffer_from_base64 rt (JStr s) = Inr (base64 rt s)"
| "Buffer_from_base64 rt v = bufferFromOther rt v"

subsection \<open>\<open>parseCommaOrArray\<close>\<close>

text \<open>
  The argument is \<open>form.get("to")\<close>: \<open>null\<close> or one entry. The function also has a
  branch for an array, which its declared type leaves out.
\<close>

datatype to_value = Null | Entry FormDataEntryValue | Array "FormDataEntryValue list"

definition nonEmpty :: "jsstring \<Rightarrow> bool" where
  "nonEmpty v \<longleftrightarrow> v \<noteq> []"

fun parseCommaOrArray :: "to_value \<Rightarrow> jsstring list" where
  "parseCommaOrArray Null = []"
| "parseCommaOrArray (Array vs) =
     filter nonEmpty (map trim (concat (map (split COMMA)
       (map (\<lambda>v. case v of StringEntry s \<Rightarrow> s | FileEntry f \<Rightarrow> []) vs))))"
| "parseCommaOrArray (Entry (StringEntry s)) =
     (if s = [] then [] else filter nonEmpty (map trim (split COMMA s)))"
| "parseCommaOrArray (Entry (FileEntry f)) =
     filter nonEmpty (map trim (split COMMA []))"

subsection \<open>\<open>parseRequest\<close>\<close>

text \<open>\<open>String(v || "")\<close> on \<open>form.get(name)\<close>.\<close>

fun String_or_empty :: "FormDataEntryValue option \<Rightarrow> jsstring" where
  "String_or_empty None = []"
| "String_or_empty (Some (StringEntry s)) = s"
| "String_or_empty (Some (FileEntry f)) = js ''[object File]''"

fun to_value_of :: "FormDataEntryValue option \<Rightarrow> to_value" where
  "to_value_of None = Null"
| "to_value_of (Some v) = Entry v"

text \<open>The loop over \<open>form.getAll("attachments")\<close>: each \<open>File\<close> is pushed, a string is skipped.\<close>

fun file_attachments :: "FormDataEntryValue list \<Rightarrow> attachment list" where
  "file_attachments [] = []"
| "file_attachments (StringEntry s # es) = file_attachments es"
| "file_attachments (FileEntry f # es) =
     \<lparr>filename = JStr (file_name f), content = file_bytes f,
      contentType = (if file_type f = [] then JUndefined else JStr (file_type f))\<rparr>
     # file_attachments es"

text \<open>
  The callback of \<open>(json.attachments || []).map\<close> on one entry, and the \<open>map\<close> itself:
  the entries in order up to the first that throws; only an array has a callable \<open>map\<close>.
\<close>

definition json_attachment :: "runtime \<Rightarrow> jsvalue \<Rightarrow> thrown + attachment" where
  "json_attachment rt a =
     and_then (property rt a ''filename'') (\<lambda>name.
     and_then (property rt a ''content'') (\<lambda>text.
     and_then (Buffer_from_base64 rt text) (\<lambda>buffer.
     and_then (property rt a ''contentType'') (\<lambda>type.
       Inr \<lparr>filename = name, content = buffer, contentType = type\<rparr>))))"

fun json_attachments :: "runtime \<Rightarrow> jsvalue list \<Rightarrow> thrown + attachment list" where
  "json_attachments rt [] = Inr []"
| "json_attachments rt (a # as) =
     and_then (json_attachment rt a) (\<lambda>x.
     and_then (json_attachments rt as) (\<lambda>xs. Inr (x # xs)))"

fun attachments_map :: "runtime \<Rightarrow> jsvalue \<Rightarrow> thrown + attachment list" where
  "attachments_map rt (JArr as) = json_attachments rt as"
| "attachments_map rt v = Inl (type_error rt ''attachments.map'' v)"

definition isMultipart :: "runtime \<Rightarrow> request \<Rightarrow> bool" where
  "isMultipart rt req =
     includes_str
       (toLowerCase (unicodeLower rt) (case content_type req of None \<Rightarrow> [] | Some s \<Rightarrow> s))
       (js ''multipart/form-data'')"

definition parseRequest ::
  "runtime \<Rightarrow> request \<Rightarrow> thrown + (ParsedEmailFields \<times> attachment list)" where
  "parseRequest rt req =
     (if isMultipart rt req then
        (case formData req of
           Inl e \<Rightarrow> Inl e
         | Inr form \<Rightarrow>
             Inr (\<lparr>f_from = JStr (String_or_empty (form_get form (js ''from''))),
                   f_to = JArr (map JStr
                            (parseCommaOrArray (to_value_of (form_get form (js ''to''))))),
                   f_subject = JStr (String_or_empty (form_get form (js ''subject''))),
                   f_bodyHtml = JStr (String_or_empty (form_get form (js ''bodyHtml'')))\<rparr>,
                  file_attachments (form_getAll form (js ''attachments''))))
      else
        (let j = (case json req of Inl e \<Rightarrow> JObj [] | Inr v \<Rightarrow> v)
         in and_then (property rt j ''from'') (\<lambda>from_v.
            and_then (property rt j ''to'') (\<lambda>to_v.
            and_then (property rt j ''subject'') (\<lambda>subject_v.
            and_then (property rt j ''bodyHtml'') (\<lambda>bodyHtml_v.
            and_then (property rt j ''attachments'') (\<lambda>attachments_v.
            and_then (attachments_map rt (or_else attachments_v (JArr []))) (\<lambda>attachments.
              Inr (\<lparr>f_from = or_else from_v (JStr []),
                    f_to = or_else to_v (JArr []),
                    f_subject = or_else subject_v (JStr []),
                    f_bodyHtml = or_else bodyHtml_v (JStr [])\<rparr>,
                   attachments)))))))))"

subsection \<open>\<open>POST\<close>\<close>

definition json_response :: "response_body \<Rightarrow> nat \<Rightarrow> response" where
  "json_response b st = \<lparr>status = st, body = b\<rparr>"

text \<open>The \<open>catch\<close> block of \<open>POST\<close>.\<close>

definition caught :: "thrown \<Rightarrow> response" where
  "caught e =
     json_response
       (ErrorBody (case e of Error m \<Rightarrow> m
                   | NotAnError \<Rightarrow> js ''Unexpected error while sending email''))
       500"

text \<open>\<open>!v\<close> for \<open>v = process.env.X\<close>: unset or the empty string.\<close>

definition unset :: "jsstring option \<Rightarrow> bool" where
  "unset v \<longleftrightarrow> v = None \<or> v = Some []"

definition smtp_port :: "runtime \<Rightarrow> env \<Rightarrow> jsnumber" where
  "smtp_port rt env =
     (if unset (env (js ''SMTP_PORT'')) then Finite 587
      else numberOf rt (the (env (js ''SMTP_PORT''))))"

definition smtp_secure :: "runtime \<Rightarrow> env \<Rightarrow> bool" where
  "smtp_secure rt env \<longleftrightarrow>
     toLowerCase (unicodeLower rt)
       (if unset (env (js ''SMTP_SECURE'')) then js ''false''
        else the (env (js ''SMTP_SECURE'')))
     = js ''true''"

text \<open>The object given to \<open>createTransport\<close>, once host, user and password are there.\<close>

definition smtp_options :: "runtime \<Rightarrow> env \<Rightarrow> transport_options" where
  "smtp_options rt env =
     \<lparr>host = the (env (js ''SMTP_HOST'')),
      port = smtp_port rt env,
      secure = smtp_secure rt env,
      auth_user = the (env (js ''SMTP_USER'')),
      auth_pass = the (env (js ''SMTP_PASS''))\<rparr>"

definition invalid_from :: "response \<times> call list" where
  "invalid_from =
     (json_response (ErrorBody (js ''Valid 'from' email is required'')) 400, [])"

definition invalid_to :: "response \<times> call list" where
  "invalid_to =
     (json_response (ErrorBody (js ''Provide at least one valid 'to' email'')) 400, [])"

text \<open>
  The handler returns its response; the calls it made on nodemailer are returned beside
  it. Anything thrown on the way ends in the \<open>catch\<close> block. Console output is left out.
\<close>

definition POST :: "runtime \<Rightarrow> env \<Rightarrow> request \<Rightarrow> response \<times> call list" where
  "POST rt env req =
     (case parseRequest rt req of
        Inl e \<Rightarrow> (caught e, [])
      | Inr (flds, attachments) \<Rightarrow>
          if \<not> truthy (f_from flds) then invalid_from
          else
          case isValidEmail_value rt (f_from flds) of
            Inl e \<Rightarrow> (caught e, [])
          | Inr from_valid \<Rightarrow>
          if \<not> from_valid then invalid_from
          else
          case length_of rt (f_to flds) of
            Inl e \<Rightarrow> (caught e, [])
          | Inr to_length \<Rightarrow>
          if \<not> truthy to_length then invalid_to
          else
          case every rt (f_to flds) of
            Inl e \<Rightarrow> (caught e, [])
          | Inr to_valid \<Rightarrow>
          if \<not> to_valid then invalid_to
          else if unset (env (js ''SMTP_HOST'')) \<or> unset (env (js ''SMTP_USER''))
                  \<or> unset (env (js ''SMTP_PASS'')) then
            (json_response
               (ErrorBody (js ''SMTP credentials are not configured on the server'')) 500, [])
          else
          case createTransport rt (smtp_options rt env) of
            Some e \<Rightarrow> (caught e, [CreateTransport (smtp_options rt env)])
          | None \<Rightarrow>
          case join_value rt (f_to flds) of
            Inl e \<Rightarrow> (caught e, [CreateTransport (smtp_options rt env)])
          | Inr to_joined \<Rightarrow>
          (let m = \<lparr>mail_from = f_from flds,
                    mail_to = to_joined,
                    mail_subject = f_subject flds,
                    mail_html = or_else (f_bodyHtml flds) (JStr []),
                    mail_attachments = attachments\<rparr>
           in case sendMail rt (smtp_options rt env) m of
                Inl e \<Rightarrow>
                  (caught e, [CreateTransport (smtp_options rt env),
                              SendMail (smtp_options rt env) m])
              | Inr info \<Rightarrow>
                  (json_response (SuccessBody (messageId info)) 200,
                   [CreateTransport (smtp_options rt env),
                    SendMail (smtp_options rt env) m])))"


section \<open>The Composer (\<open>page.tsx\<close>)\<close>

subsection \<open>\<open>TagInput.add\<close>\<close>

text \<open>
  The callback works on the committed \<open>values\<close> and the text of the \<open>input\<close>; it returns
  the list given to \<open>onChange\<close> and the new text. With no piece it returns early and
  changes neither.
\<close>

definition push_piece :: "jsstring list \<Rightarrow> jsstring \<Rightarrow> jsstring list" where
  "push_piece next p = (if isValidEmail p \<and> p \<notin> set next then next @ [p] else next)"

definition add :: "jsstring list \<Rightarrow> jsstring \<Rightarrow> jsstring list \<times> jsstring" where
  "add values input =
     (let pieces = filter nonEmpty (map trim (split COMMA input))
      in if pieces = [] then (values, input)
         else (foldl push_piece values pieces, []))"

subsection \<open>\<open>Home\<close>\<close>

datatype status_type = success | error

text \<open>
  The state of the page: the fields, the HTML of the editor, the files of the file
  input, and the two flags the handlers set.
\<close>

record composer =
  c_from :: jsstring
  c_to :: "jsstring list"
  c_subject :: jsstring
  c_bodyHtml :: jsstring
  c_files :: "File list"
  isSending :: bool
  c_status :: "(status_type \<times> jsstring) option"

definition canSubmit :: "composer \<Rightarrow> bool" where
  "canSubmit s \<longleftrightarrow>
     isValidEmail (c_from s) \<and> length (c_to s) > 0 \<and> list_all isValidEmail (c_to s)
     \<and> length (trim (c_subject s)) > 0"

text \<open>The \<open>disabled\<close> attribute of the submit button.\<close>

definition submit_disabled :: "composer \<Rightarrow> bool" where
  "submit_disabled s \<longleftrightarrow> \<not> canSubmit s \<or> isSending s"

record http_request =
  url :: jsstring
  http_method :: jsstring
  form_body :: FormData

text \<open>
  A response as \<open>onSubmit\<close> reads it: \<open>res.ok\<close>, and \<open>res.json()\<close>, which rejects or gives
  the data, of which only \<open>data?.error\<close> is read.
\<close>

record fetch_response =
  ok :: bool
  data_error :: "thrown + jsstring option"

text \<open>\<open>v || []\<close> and \<open>v || ""\<close> on a list or text that may be missing.\<close>

definition or_empty :: "'a list option \<Rightarrow> 'a list" where
  "or_empty v = (case v of None \<Rightarrow> [] | Some x \<Rightarrow> x)"

definition submit_form :: "composer \<Rightarrow> FormData" where
  "submit_form s =
     [(js ''from'', StringEntry (c_from s)),
      (js ''to'', StringEntry (join COMMA (c_to s))),
      (js ''subject'', StringEntry (c_subject s)),
      (js ''bodyHtml'', StringEntry (c_bodyHtml s))]
     @ map (\<lambda>f. (js ''attachments'', FileEntry f)) (c_files s)"

definition failed_status :: "thrown \<Rightarrow> (status_type \<times> jsstring) option" where
  "failed_status e =
     Some (error, case e of Error m \<Rightarrow> m | NotAnError \<Rightarrow> js ''Failed to send email'')"

text \<open>
  \<open>onSubmit\<close>, run to the end of its \<open>finally\<close> block: the state it leaves and the
  requests it issued. \<open>fetch\<close> is the network.
\<close>

definition onSubmit ::
  "(http_request \<Rightarrow> thrown + fetch_response) \<Rightarrow> composer \<Rightarrow> composer \<times> http_request list" where
  "onSubmit fetch s =
     (if \<not> canSubmit s then (s, [])
      else
        (let rq = \<lparr>url = js ''/api/send-email'', http_method = js ''POST'',
                    form_body = submit_form s\<rparr>;
             st = (case fetch rq of
                     Inl e \<Rightarrow> failed_status e
                   | Inr res \<Rightarrow>
                       (case data_error res of
                          Inl e \<Rightarrow> failed_status e
                        | Inr err \<Rightarrow>
                            if \<not> ok res then
                              failed_status (Error (if or_empty err = []
                                                    then js ''Failed to send email''
                                                    else or_empty err))
                            else Some (success, js ''Email sent successfully.'')))
         in (s\<lparr>isSending := False, c_status := st\<rparr>, [rq])))"


section \<open>The language of a pattern\<close>

text \<open>The words a pattern denotes; \<open>matches\<close> decides membership (\<open>matches_lang\<close> below).\<close>

definition conc :: "'a list set \<Rightarrow> 'a list set \<Rightarrow> 'a list set" where
  "conc A B = {u @ v | u v. u \<in> A \<and> v \<in> B}"

definition star :: "'a list set \<Rightarrow> 'a list set" where
  "star A = {concat ws | ws. set ws \<subseteq> A}"

fun lang :: "regex \<Rightarrow> jsstring set" where
  "lang Zero = {}"
| "lang One = {[]}"
| "lang (Chr a) = {[a]}"
| "lang (Class rs) = {[c] | c. inClass rs c}"
| "lang (Alt r s) = lang r \<union> lang s"
| "lang (Seq r s) = conc (lang r) (lang s)"
| "lang (Star r) = star (lang r)"

definition dl :: "'a \<Rightarrow> 'a list set \<Rightarrow> 'a list set" where
  "dl c A = {w. c # w \<in> A}"

definition localRegex :: regex where
  "localRegex = Seq (Plus (Class localRanges)) (Star (Seq (Chr DOT) (Plus (Class localRanges))))"

definition domainRegex :: regex where
  "domainRegex = Seq (Plus (Seq (Plus (Class labelRanges)) (Chr DOT))) (AtLeast2 (Class letterRanges))"


section \<open>The address grammar of the specification\<close>

text \<open>
  \<open>local@domain.tld\<close> in the words of the specification: the local part is one or more
  runs of characters from \<open>[A-Za-z0-9_'^&+-]\<close> separated by dots; the domain is one or
  more labels and a final label of at least two letters, separated by dots. The
  specification does not say what a label is made of: the pattern's \<open>[a-zA-Z0-9-]\<close> is
  taken. Runs and labels are not empty.
\<close>

definition isLetter :: "jschar \<Rightarrow> bool" where
  "isLetter c \<longleftrightarrow> (0x41 \<le> c \<and> c \<le> 0x5A) \<or> (0x61 \<le> c \<and> c \<le> 0x7A)"

definition isDigit :: "jschar \<Rightarrow> bool" where
  "isDigit c \<longleftrightarrow> 0x30 \<le> c \<and> c \<le> 0x39"

definition isLocalChar :: "jschar \<Rightarrow> bool" where
  "isLocalChar c \<longleftrightarrow> isLetter c \<or> isDigit c \<or> c \<in> set [0x5F, 0x27, 0x5E, 0x26, 0x2B, 0x2D]"

definition isLabelChar :: "jschar \<Rightarrow> bool" where
  "isLabelChar c \<longleftrightarrow> isLetter c \<or> isDigit c \<or> c = 0x2D"

definition spec_local :: "jsstring \<Rightarrow> bool" where
  "spec_local l = list_all (\<lambda>r. r \<noteq> [] \<and> list_all isLocalChar r) (split DOT l)"

definition spec_domain :: "jsstring \<Rightarrow> bool" where
  "spec_domain d =
     (let labels = split DOT d
      in 2 \<le> length labels
       \<and> list_all (\<lambda>l. l \<noteq> [] \<and> list_all isLabelChar l) (butlast labels)
       \<and> 2 \<le> length (last labels) \<and> list_all isLetter (last labels))"

definition spec_email :: "jsstring \<Rightarrow> bool" where
  "spec_email s = (case split AT s of [l, d] \<Rightarrow> spec_local l \<and> spec_domain d | _ \<Rightarrow> False)"


section \<open>Removing repetitions\<close>

text \<open>Each element once, at the place of its first occurrence.\<close>

fun dedupe :: "'a list \<Rightarrow> 'a list" where
  "dedupe [] = []"
| "dedupe (x # xs) = x # dedupe (filter (\<lambda>y. y \<noteq> x) xs)"


section \<open>Uploaded files\<close>

text \<open>The \<open>File\<close> entries of a list of form entries, in order.\<close>

fun files_of :: "FormDataEntryValue list \<Rightarrow> File list" where
  "files_of [] = []"
| "files_of (StringEntry s # es) = files_of es"
| "files_of (FileEntry f # es) = f # files_of es"


section \<open>Example inputs\<close>

text \<open>
  A runtime whose transport always succeeds (its \<open>base64\<close> gives the bytes of \<open>hi\<close>,
  which is right for the one text decoded below, \<open>aGk=\<close>), an environment with the SMTP
  settings, and requests with a JSON and with a multipart body.
\<close>

definition example_runtime :: runtime where
  "example_runtime =
     \<lparr>unicodeLower = (\<lambda>s. s), numberOf = (\<lambda>s. NaN), base64 = (\<lambda>s. [0x68, 0x69]),
      bufferFromOther = (\<lambda>v. Inl (Error (js ''The first argument must be of type string''))),
      typeErrorMessage = (\<lambda>what v. what @ js '' is not a function''),
      toStringOther = (\<lambda>v. js ''[object Object]''),
      createTransport = (\<lambda>opts. None),
      sendMail = (\<lambda>opts m. Inr \<lparr>messageId = js ''<1@example.com>''\<rparr>)\<rparr>"

definition example_env :: env where
  "example_env = map_of [(js ''SMTP_HOST'', js ''smtp.example.com''),
                         (js ''SMTP_USER'', js ''user''), (js ''SMTP_PASS'', js ''secret''),
                         (js ''SMTP_SECURE'', js ''TRUE'')]"

definition example_options :: "bool \<Rightarrow> transport_options" where
  "example_options sec = \<lparr>host = js ''smtp.example.com'', port = Finite 587, secure = sec,
     auth_user = js ''user'', auth_pass = js ''secret''\<rparr>"

definition json_request :: "jsvalue \<Rightarrow> request" where
  "json_request j = \<lparr>content_type = Some (js ''application/json''),
                     formData = Inl (Error (js ''not a form'')), json = Inr j\<rparr>"

definition multipart_request :: "FormData \<Rightarrow> request" where
  "multipart_request form =
     \<lparr>content_type = Some (js ''multipart/form-data; boundary=x''),
      formData = Inr form, json = Inl (Error (js ''not JSON''))\<rparr>"

definition example_file :: File where
  "example_file = \<lparr>file_name = js ''cv.pdf'', file_type = js ''application/pdf'',
                    file_bytes = [0x25, 0x50, 0x44, 0x46]\<rparr>"

text \<open>A JSON body with the given \<open>from\<close> and \<open>to\<close> and no attachments.\<close>

definition json_body :: "jsvalue \<Rightarrow> jsvalue \<Rightarrow> jsvalue" where
  "json_body from_v to_v =
     JObj [(js ''from'', from_v), (js ''to'', to_v),
           (js ''subject'', JStr (js ''Referral'')),
           (js ''bodyHtml'', JStr (js ''<p>Hello</p>''))]"

definition example_json_attachment :: jsvalue where
  "example_json_attachment =
     JObj [(js ''filename'', JStr (js ''hi.txt'')), (js ''content'', JStr (js ''aGk=''))]"

definition valid_json_body :: jsvalue where
  "valid_json_body =
     JObj [(js ''from'', JStr (js ''me@x.com'')),
           (js ''to'', JArr [JStr (js ''a@x.com''), JStr (js ''b@x.com'')]),
           (js ''subject'', JStr (js ''Referral'')),
           (js ''bodyHtml'', JStr (js ''<p>Hello</p>'')),
           (js ''attachments'', JArr [example_json_attachment])]"

definition valid_form :: FormData where
  "valid_form =
     [(js ''from'', StringEntry (js ''me@x.com'')),
      (js ''to'', StringEntry (js ''a@x.com,b@x.com'')),
      (js ''subject'', StringEntry (js ''Referral'')),
      (js ''bodyHtml'', StringEntry (js ''<p>Hello</p>'')),
      (js ''attachments'', FileEntry example_file)]"

definition comma_json_body :: jsvalue where
  "comma_json_body = json_body (JStr (js ''me@x.com'')) (JArr [JStr (js ''a@x.com, b@x.com'')])"

definition comma_form :: FormData where
  "comma_form =
     [(js ''from'', StringEntry (js ''me@x.com'')),
      (js ''to'', StringEntry (js ''a@x.com, b@x.com'')),
      (js ''subject'', StringEntry (js ''Referral'')),
      (js ''bodyHtml'', StringEntry (js ''<p>Hello</p>''))]"

definition broken_json_request :: request where
  "broken_json_request = \<lparr>content_type = Some (js ''application/json''),
     formData = Inl (Error (js ''not a form'')),
     json = Inl (Error (js ''Unexpected token } in JSON at position 1''))\<rparr>"

definition valid_composer :: composer where
  "valid_composer =
     \<lparr>c_from = js ''me@x.com'', c_to = [js ''a@x.com'', js ''b@x.com''],
      c_subject = js ''Referral'', c_bodyHtml = js ''<p>Hello</p>'', c_files = [],
      isSending = False, c_status = None\<rparr>"

definition sending_composer :: composer where
  "sending_composer = valid_composer\<lparr>isSending := True\<rparr>"

definition example_mail :: "attachment list \<Rightarrow> mail" where
  "example_mail atts =
     \<lparr>mail_from = JStr (js ''me@x.com''), mail_to = js ''a@x.com,b@x.com'',
      mail_subject = JStr (js ''Referral''), mail_html = JStr (js ''<p>Hello</p>''),
      mail_attachments = atts\<rparr>"

definition uploaded_file_attachment :: attachment where
  "uploaded_file_attachment =
     \<lparr>filename = JStr (js ''cv.pdf''), content = [0x25, 0x50, 0x44, 0x46],
      contentType = JStr (js ''application/pdf'')\<rparr>"

definition uploaded_json_attachment :: attachment where
  "uploaded_json_attachment =
     \<lparr>filename = JStr (js ''hi.txt''), content = [0x68, 0x69], contentType = JUndefined\<rparr>"


section \<open>Correctness of the matcher\<close>

lemma Nil_in_conc: "[] \<in> conc A B \<longleftrightarrow> [] \<in> A \<and> [] \<in> B"
  by (auto simp: conc_def)

lemma Nil_in_star: "[] \<in> star A"
  unfolding star_def by (rule CollectI, rule exI[of _ "[]"]) simp

lemma nullable_lang: "nullable r \<longleftrightarrow> [] \<in> lang r"
  by (induction r) (auto simp: Nil_in_conc Nil_in_star)

lemma dl_conc: "dl c (conc A B) = conc (dl c A) B \<union> (if [] \<in> A then dl c B else {})"
  unfolding dl_def conc_def
  by (auto simp: Cons_eq_append_conv)

lemma star_unfold: "w \<in> star A \<longleftrightarrow> w = [] \<or> (\<exists>u v. u \<noteq> [] \<and> u \<in> A \<and> v \<in> star A \<and> w = u @ v)"
proof
  assume "w \<in> star A"
  then obtain ws where ws: "set ws \<subseteq> A" "w = concat ws" by (auto simp: star_def)
  then show "w = [] \<or> (\<exists>u v. u \<noteq> [] \<and> u \<in> A \<and> v \<in> star A \<and> w = u @ v)"
  proof (induction ws arbitrary: w)
    case Nil then show ?case by simp
  next
    case (Cons x xs)
    show ?case
    proof (cases "x = []")
      case True
      with Cons show ?thesis by simp
    next
      case False
      have "concat xs \<in> star A" using Cons.prems by (auto simp: star_def)
      with False Cons.prems show ?thesis by auto
    qed
  qed
next
  assume "w = [] \<or> (\<exists>u v. u \<noteq> [] \<and> u \<in> A \<and> v \<in> star A \<and> w = u @ v)"
  then show "w \<in> star A"
  proof
    assume "w = []" then show ?thesis by (simp add: Nil_in_star)
  next
    assume "\<exists>u v. u \<noteq> [] \<and> u \<in> A \<and> v \<in> star A \<and> w = u @ v"
    then obtain u v ws where "u \<in> A" "set ws \<subseteq> A" "v = concat ws" "w = u @ v"
      by (auto simp: star_def)
    then have "set (u # ws) \<subseteq> A \<and> w = concat (u # ws)" by simp
    then show ?thesis unfolding star_def by blast
  qed
qed

lemma dl_star: "dl c (star A) = conc (dl c A) (star A)"
proof (rule set_eqI)
  fix w
  have "w \<in> dl c (star A) \<longleftrightarrow> c # w \<in> star A" by (simp add: dl_def)
  also have "\<dots> \<longleftrightarrow> (\<exists>u v. u \<noteq> [] \<and> u \<in> A \<and> v \<in> star A \<and> c # w = u @ v)"
    by (subst star_unfold) simp
  also have "\<dots> \<longleftrightarrow> (\<exists>u' v. c # u' \<in> A \<and> v \<in> star A \<and> w = u' @ v)"
    by (auto simp: Cons_eq_append_conv)
  also have "\<dots> \<longleftrightarrow> w \<in> conc (dl c A) (star A)"
    by (auto simp: conc_def dl_def)
  finally show "w \<in> dl c (star A) \<longleftrightarrow> w \<in> conc (dl c A) (star A)" .
qed

lemma lang_deriv: "lang (deriv c r) = dl c (lang r)"
proof (induction r)
  case (Seq r s)
  then show ?case by (simp add: dl_conc nullable_lang)
next
  case (Star r)
  then show ?case by (simp add: dl_star)
qed (auto simp: dl_def)

lemma matches_lang: "matches r w \<longleftrightarrow> w \<in> lang r"
  by (induction w arbitrary: r) (simp_all add: nullable_lang lang_deriv dl_def)


section \<open>Splitting and joining\<close>

lemma range_single: "(a \<le> c \<and> c \<le> a) = (c = a)" for a c :: "'a::order"
  by auto

lemma inClass_local: "inClass localRanges c = isLocalChar c"
  unfolding inClass_def localRanges_def isLocalChar_def isLetter_def isDigit_def
  by (simp add: range_single disj_ac)

lemma inClass_label: "inClass labelRanges c = isLabelChar c"
  unfolding inClass_def labelRanges_def isLabelChar_def isLetter_def isDigit_def
  by (simp add: range_single disj_ac)

lemma inClass_letter: "inClass letterRanges c = isLetter c"
  unfolding inClass_def letterRanges_def isLetter_def
  by (simp add: range_single disj_ac)

lemma split_not_Nil: "split sep w \<noteq> []"
  by (induction w) (auto split: list.splits)

lemma split_nosep: "sep \<notin> set r \<Longrightarrow> split sep r = [r]"
  by (induction r) auto

lemma split_append_sep: "sep \<notin> set r \<Longrightarrow> split sep (r @ sep # w) = r # split sep w"
  by (induction r) (auto simp: split_not_Nil split: list.splits)

lemma join_Cons: "rs \<noteq> [] \<Longrightarrow> join sep (r # rs) = r @ sep # join sep rs"
  by (cases rs) auto

lemma join_Cons_Cons: "join sep ((c # p) # ps) = c # join sep (p # ps)"
  by (cases ps) auto

lemma join_split: "join sep (split sep w) = w"
proof (induction w)
  case Nil
  show ?case by simp
next
  case (Cons c cs)
  obtain p ps where ps: "split sep cs = p # ps"
    using split_not_Nil[of sep cs] by (cases "split sep cs") auto
  show ?case
  proof (cases "c = sep")
    case True
    with Cons ps show ?thesis by (simp add: join_Cons)
  next
    case False
    with Cons ps show ?thesis by (simp add: join_Cons_Cons)
  qed
qed

lemma split_join:
  "rs \<noteq> [] \<Longrightarrow> \<forall>r \<in> set rs. sep \<notin> set r \<Longrightarrow> split sep (join sep rs) = rs"
proof (induction rs)
  case Nil
  then show ?case by simp
next
  case (Cons r rs)
  show ?case
  proof (cases "rs = []")
    case True
    with Cons.prems show ?thesis by (simp add: split_nosep)
  next
    case False
    with Cons show ?thesis by (simp add: join_Cons split_append_sep)
  qed
qed

lemma split_pieces_nosep: "r \<in> set (split sep w) \<Longrightarrow> sep \<notin> set r"
  by (induction w arbitrary: r) (auto split: if_splits list.splits)

lemma set_join: "set (join sep rs) \<subseteq> \<Union> (set ` set rs) \<union> {sep}"
  by (induction sep rs rule: join.induct) auto

lemma join_prefixed: "join sep (r # rs) = r @ concat (map (Cons sep) rs)"
  by (induction rs arbitrary: r) (simp_all add: join_Cons)

lemma join_suffixed: "join sep (rs @ [t]) = concat (map (\<lambda>r. r @ [sep]) rs) @ t"
proof (induction rs)
  case Nil
  show ?case by simp
next
  case (Cons r rs)
  have "join sep (r # (rs @ [t])) = r @ sep # join sep (rs @ [t])"
    by (rule join_Cons) simp
  with Cons show ?case by simp
qed

lemma list_of_image: "set ws \<subseteq> f ` R \<Longrightarrow> \<exists>rs. set rs \<subseteq> R \<and> ws = map f rs"
proof (induction ws)
  case Nil
  show ?case by simp
next
  case (Cons x xs)
  from Cons.prems have "x \<in> f ` R" and "set xs \<subseteq> f ` R" by simp_all
  then obtain r rs where r: "r \<in> R" "f r = x" and rs: "set rs \<subseteq> R" "map f rs = xs"
    using Cons.IH by blast
  have "set (r # rs) \<subseteq> R" using r(1) rs(1) by simp
  moreover have "x # xs = map f (r # rs)" using r(2) rs(2) by simp
  ultimately show ?case by (intro exI[of _ "r # rs"] conjI)
qed

lemma star_image: "star (f ` R) = {concat (map f rs) | rs. set rs \<subseteq> R}"
proof (rule set_eqI, rule iffI)
  fix w assume "w \<in> star (f ` R)"
  then obtain ws where ws: "set ws \<subseteq> f ` R" "w = concat ws"
    unfolding star_def by blast
  from list_of_image[OF ws(1)] obtain rs where "set rs \<subseteq> R" "ws = map f rs" by blast
  with ws(2) show "w \<in> {concat (map f rs) | rs. set rs \<subseteq> R}" by blast
next
  fix w assume "w \<in> {concat (map f rs) | rs. set rs \<subseteq> R}"
  then obtain rs where rs: "set rs \<subseteq> R" "w = concat (map f rs)" by blast
  from rs(1) have "set (map f rs) \<subseteq> f ` R" by auto
  with rs(2) show "w \<in> star (f ` R)" unfolding star_def by blast
qed

lemma conc_single_left: "conc {[sep]} R = Cons sep ` R"
  unfolding conc_def by auto

lemma conc_single_right: "conc R {[sep]} = (\<lambda>r. r @ [sep]) ` R"
  unfolding conc_def by auto

lemma star_prefixed:
  "star (conc {[sep]} R) = {concat (map (Cons sep) rs) | rs. set rs \<subseteq> R}"
  by (simp only: conc_single_left star_image)

lemma star_suffixed:
  "star (conc R {[sep]}) = {concat (map (\<lambda>r. r @ [sep]) rs) | rs. set rs \<subseteq> R}"
  by (simp only: conc_single_right star_image)

lemma concI: "u \<in> A \<Longrightarrow> v \<in> B \<Longrightarrow> u @ v \<in> conc A B"
  unfolding conc_def by blast

text \<open>One or more pieces of R separated by sep.\<close>

lemma separated_runs:
  assumes nosep: "\<forall>r \<in> R. sep \<notin> set r"
  shows "w \<in> conc R (star (conc {[sep]} R)) \<longleftrightarrow> set (split sep w) \<subseteq> R"
proof
  assume "w \<in> conc R (star (conc {[sep]} R))"
  then obtain r v where rv: "r \<in> R" "v \<in> star (conc {[sep]} R)" "w = r @ v"
    unfolding conc_def by blast
  from rv(2) obtain rs where "set rs \<subseteq> R" "v = concat (map (Cons sep) rs)"
    unfolding star_prefixed by blast
  with rv have r: "r \<in> R" "set rs \<subseteq> R" "w = join sep (r # rs)"
    by (simp_all add: join_prefixed)
  with nosep have "split sep w = r # rs"
    by (simp add: split_join subset_iff del: join.simps)
  with r show "set (split sep w) \<subseteq> R" by simp
next
  assume a: "set (split sep w) \<subseteq> R"
  obtain r rs where s: "split sep w = r # rs"
    using split_not_Nil[of sep w] by (cases "split sep w") auto
  have "w = join sep (r # rs)" using join_split[of sep w] s by simp
  then have "w = r @ concat (map (Cons sep) rs)" by (simp add: join_prefixed)
  moreover have "r \<in> R" "set rs \<subseteq> R" using a s by auto
  moreover have "concat (map (Cons sep) rs) \<in> star (conc {[sep]} R)"
    unfolding star_prefixed using \<open>set rs \<subseteq> R\<close> by blast
  ultimately show "w \<in> conc R (star (conc {[sep]} R))"
    by (simp add: concI)
qed

text \<open>One or more pieces of R, each followed by sep, then a piece of T.\<close>

lemma terminated_labels:
  assumes nosepR: "\<forall>r \<in> R. sep \<notin> set r" and nosepT: "\<forall>t \<in> T. sep \<notin> set t"
  shows "w \<in> conc (conc (conc R {[sep]}) (star (conc R {[sep]}))) T \<longleftrightarrow>
         2 \<le> length (split sep w) \<and> set (butlast (split sep w)) \<subseteq> R \<and> last (split sep w) \<in> T"
proof
  assume "w \<in> conc (conc (conc R {[sep]}) (star (conc R {[sep]}))) T"
  then obtain x t where xt: "x \<in> conc (conc R {[sep]}) (star (conc R {[sep]}))" "t \<in> T" "w = x @ t"
    unfolding conc_def by blast
  from xt(1) obtain y v where yv: "y \<in> conc R {[sep]}" "v \<in> star (conc R {[sep]})" "x = y @ v"
    unfolding conc_def by blast
  from yv(1) obtain r where r0: "r \<in> R" "y = r @ [sep]"
    unfolding conc_def by blast
  from yv(2) obtain rs where rs: "set rs \<subseteq> R" "v = concat (map (\<lambda>r. r @ [sep]) rs)"
    unfolding star_suffixed by blast
  have r: "r \<in> R" "set rs \<subseteq> R" "t \<in> T"
      "w = (r @ [sep]) @ concat (map (\<lambda>r. r @ [sep]) rs) @ t"
    using xt yv r0 rs by simp_all
  then have "w = join sep ((r # rs) @ [t])"
    by (simp only: join_suffixed) simp
  moreover have "\<forall>x \<in> set ((r # rs) @ [t]). sep \<notin> set x"
    using r nosepR nosepT by auto
  ultimately have "split sep w = (r # rs) @ [t]"
    using split_join[of "(r # rs) @ [t]" sep] by simp
  with r show "2 \<le> length (split sep w) \<and> set (butlast (split sep w)) \<subseteq> R \<and> last (split sep w) \<in> T"
    by (simp add: butlast_append)
next
  assume a: "2 \<le> length (split sep w) \<and> set (butlast (split sep w)) \<subseteq> R \<and> last (split sep w) \<in> T"
  define ls where "ls = split sep w"
  from a have "butlast ls \<noteq> []" unfolding ls_def by (cases "split sep w") (auto split: if_splits)
  then obtain r rs where b: "butlast ls = r # rs" by (cases "butlast ls") auto
  have "ls \<noteq> []" using a ls_def by auto
  then have "ls = (r # rs) @ [last ls]" using append_butlast_last_id[of ls] b by simp
  then have "w = join sep ((r # rs) @ [last ls])" using join_split[of sep w] ls_def by simp
  then have weq: "w = ((r @ [sep]) @ concat (map (\<lambda>r. r @ [sep]) rs)) @ last ls"
    by (simp only: join_suffixed) simp
  have in_R: "r \<in> R" "set rs \<subseteq> R" and in_T: "last ls \<in> T"
    using a b ls_def by auto
  have 1: "r @ [sep] \<in> conc R {[sep]}"
    by (rule concI) (use in_R in simp_all)
  have 2: "concat (map (\<lambda>r. r @ [sep]) rs) \<in> star (conc R {[sep]})"
    unfolding star_suffixed using in_R(2) by blast
  show "w \<in> conc (conc (conc R {[sep]}) (star (conc R {[sep]}))) T"
    unfolding weq by (rule concI[OF concI[OF 1 2] in_T])
qed


section \<open>The pattern and the grammar\<close>

lemma star_chars: "w \<in> star {[c] | c. P c} \<longleftrightarrow> list_all P w"
proof -
  have "{[c] | c. P c} = (\<lambda>c. [c]) ` {c. P c}" by auto
  moreover have "concat (map (\<lambda>c. [c]) rs) = rs" for rs :: "'a list"
    by (induction rs) simp_all
  ultimately have "star {[c] | c. P c} = {rs. set rs \<subseteq> {c. P c}}"
    by (simp only: star_image) simp
  then show ?thesis by (auto simp: list_all_iff)
qed

lemma lang_Plus_Class: "lang (Plus (Class rs)) = {w. w \<noteq> [] \<and> list_all (inClass rs) w}"
proof (rule set_eqI, rule iffI)
  fix w assume "w \<in> lang (Plus (Class rs))"
  then obtain u v where "u \<in> {[c] | c. inClass rs c}" "v \<in> star {[c] | c. inClass rs c}" "w = u @ v"
    unfolding Plus_def lang.simps conc_def by blast
  then show "w \<in> {w. w \<noteq> [] \<and> list_all (inClass rs) w}"
    by (auto simp: star_chars)
next
  fix w assume "w \<in> {w. w \<noteq> [] \<and> list_all (inClass rs) w}"
  then obtain c cs where w: "w = [c] @ cs" "inClass rs c" "list_all (inClass rs) cs"
    by (cases w) auto
  have "[c] \<in> {[c] | c. inClass rs c}" using w(2) by blast
  moreover have "cs \<in> star {[c] | c. inClass rs c}" using w(3) by (simp only: star_chars)
  ultimately show "w \<in> lang (Plus (Class rs))"
    unfolding Plus_def lang.simps w(1) by (rule concI)
qed

lemma lang_AtLeast2_Class:
  "lang (AtLeast2 (Class rs)) = {w. 2 \<le> length w \<and> list_all (inClass rs) w}"
proof (rule set_eqI, rule iffI)
  fix w assume "w \<in> lang (AtLeast2 (Class rs))"
  then obtain u x where u: "u \<in> {[c] | c. inClass rs c}"
      and x: "x \<in> conc {[c] | c. inClass rs c} (star {[c] | c. inClass rs c})" and w: "w = u @ x"
    unfolding AtLeast2_def lang.simps conc_def by blast
  from x obtain u' v where "u' \<in> {[c] | c. inClass rs c}" "v \<in> star {[c] | c. inClass rs c}" "x = u' @ v"
    unfolding conc_def by blast
  with u w show "w \<in> {w. 2 \<le> length w \<and> list_all (inClass rs) w}"
    by (auto simp: star_chars)
next
  fix w assume "w \<in> {w. 2 \<le> length w \<and> list_all (inClass rs) w}"
  then obtain c d cs where w: "w = [c] @ [d] @ cs" "inClass rs c" "inClass rs d" "list_all (inClass rs) cs"
    by (cases w; cases "tl w") auto
  have c: "[c] \<in> {[c] | c. inClass rs c}" using w(2) by blast
  have d: "[d] \<in> {[c] | c. inClass rs c}" using w(3) by blast
  have cs: "cs \<in> star {[c] | c. inClass rs c}" using w(4) by (simp only: star_chars)
  show "w \<in> lang (AtLeast2 (Class rs))"
    unfolding AtLeast2_def lang.simps w(1) by (rule concI[OF c concI[OF d cs]])
qed

lemma inClass_eqs:
  "inClass localRanges = isLocalChar" "inClass labelRanges = isLabelChar"
  "inClass letterRanges = isLetter"
  by (rule ext, rule inClass_local, rule ext, rule inClass_label, rule ext, rule inClass_letter)

lemma conc_assoc: "conc A (conc B C) = conc (conc A B) C"
proof (rule set_eqI, rule iffI)
  fix w assume "w \<in> conc A (conc B C)"
  then obtain a x where "a \<in> A" "x \<in> conc B C" "w = a @ x" unfolding conc_def by blast
  moreover then obtain b c where "b \<in> B" "c \<in> C" "x = b @ c" unfolding conc_def by blast
  ultimately have "(a @ b) @ c \<in> conc (conc A B) C" "w = (a @ b) @ c"
    by (simp_all add: concI del: append_assoc)
  then show "w \<in> conc (conc A B) C" by simp
next
  fix w assume "w \<in> conc (conc A B) C"
  then obtain x c where "x \<in> conc A B" "c \<in> C" "w = x @ c" unfolding conc_def by blast
  moreover then obtain a b where "a \<in> A" "b \<in> B" "x = a @ b" unfolding conc_def by blast
  ultimately have "a @ (b @ c) \<in> conc A (conc B C)" "w = a @ (b @ c)"
    by (simp_all add: concI)
  then show "w \<in> conc A (conc B C)" by simp
qed

lemma DOT_not_local: "\<not> isLocalChar DOT" "\<not> isLabelChar DOT" "\<not> isLetter DOT"
  by (simp_all add: isLocalChar_def isLabelChar_def isLetter_def isDigit_def)

lemma AT_not_local: "\<not> isLocalChar AT" "\<not> isLabelChar AT" "\<not> isLetter AT"
  by (simp_all add: isLocalChar_def isLabelChar_def isLetter_def isDigit_def)

lemma lang_local: "w \<in> lang localRegex \<longleftrightarrow> spec_local w"
proof -
  define R where "R = {w. w \<noteq> [] \<and> list_all isLocalChar w}"
  have nosep: "\<forall>r \<in> R. DOT \<notin> set r"
    using DOT_not_local(1) by (auto simp: R_def list_all_iff)
  have "lang localRegex = conc R (star (conc {[DOT]} R))"
    by (simp add: localRegex_def lang_Plus_Class inClass_eqs R_def)
  then have "w \<in> lang localRegex \<longleftrightarrow> set (split DOT w) \<subseteq> R"
    using separated_runs[OF nosep] by simp
  also have "\<dots> \<longleftrightarrow> spec_local w"
    by (auto simp: spec_local_def R_def list_all_iff)
  finally show ?thesis .
qed

lemma lang_domain: "w \<in> lang domainRegex \<longleftrightarrow> spec_domain w"
proof -
  define R where "R = {w. w \<noteq> [] \<and> list_all isLabelChar w}"
  define T where "T = {w. 2 \<le> length w \<and> list_all isLetter w}"
  have nosepR: "\<forall>r \<in> R. DOT \<notin> set r"
    using DOT_not_local(2) by (auto simp: R_def list_all_iff)
  have nosepT: "\<forall>t \<in> T. DOT \<notin> set t"
    using DOT_not_local(3) by (auto simp: T_def list_all_iff)
  have "lang domainRegex = conc (conc (conc R {[DOT]}) (star (conc R {[DOT]}))) T"
    by (simp add: domainRegex_def lang_AtLeast2_Class lang_Plus_Class inClass_eqs R_def T_def Plus_def[of "Seq _ _"])
  then have "w \<in> lang domainRegex \<longleftrightarrow>
      2 \<le> length (split DOT w) \<and> set (butlast (split DOT w)) \<subseteq> R \<and> last (split DOT w) \<in> T"
    using terminated_labels[OF nosepR nosepT] by simp
  also have "\<dots> \<longleftrightarrow> spec_domain w"
    by (auto simp: spec_domain_def R_def T_def list_all_iff Let_def)
  finally show ?thesis .
qed

lemma lang_emailRegex: "lang emailRegex = conc (lang localRegex) (conc {[AT]} (lang domainRegex))"
  by (simp add: emailRegex_def localRegex_def domainRegex_def conc_assoc)

lemma set_split: "set w \<subseteq> \<Union> (set ` set (split sep w)) \<union> {sep}"
  using set_join[of sep "split sep w"] by (simp add: join_split)

lemma spec_local_no_AT: assumes "spec_local l" shows "AT \<notin> set l"
proof
  assume "AT \<in> set l"
  then obtain r where "r \<in> set (split DOT l)" "AT \<in> set r"
    using set_split[of l DOT] by auto
  with assms AT_not_local(1) show False
    by (auto simp: spec_local_def list_all_iff)
qed

lemma isLetter_isLabelChar: "isLetter c \<Longrightarrow> isLabelChar c"
  by (simp add: isLabelChar_def)

lemma set_butlast_last: "xs \<noteq> [] \<Longrightarrow> set xs = set (butlast xs) \<union> {last xs}"
  by (induction xs) auto

lemma spec_domain_no_AT: assumes "spec_domain d" shows "AT \<notin> set d"
proof
  assume "AT \<in> set d"
  then obtain r where r: "r \<in> set (split DOT d)" "AT \<in> set r"
    using set_split[of d DOT] by auto
  have "set (split DOT d) = set (butlast (split DOT d)) \<union> {last (split DOT d)}"
    by (rule set_butlast_last) (rule split_not_Nil)
  with r(1) have "r \<in> set (butlast (split DOT d)) \<or> r = last (split DOT d)" by blast
  with assms have "list_all isLabelChar r"
    by (auto simp: spec_domain_def Let_def list_all_iff isLetter_isLabelChar)
  with r(2) AT_not_local(2) show False by (auto simp: list_all_iff)
qed

text \<open>The grammar asks for exactly one \<open>@\<close>, between a local part and a domain.\<close>

lemma spec_email_iff:
  "spec_email w \<longleftrightarrow> (\<exists>l d. w = l @ AT # d \<and> spec_local l \<and> spec_domain d)"
proof
  assume "spec_email w"
  then obtain l d where s: "split AT w = [l, d]" "spec_local l" "spec_domain d"
    by (auto simp: spec_email_def split: list.splits)
  have "w = join AT [l, d]" using join_split[of AT w] s(1) by simp
  with s show "\<exists>l d. w = l @ AT # d \<and> spec_local l \<and> spec_domain d" by auto
next
  assume "\<exists>l d. w = l @ AT # d \<and> spec_local l \<and> spec_domain d"
  then obtain l d where w: "w = l @ AT # d" and sl: "spec_local l" and sd: "spec_domain d"
    by blast
  have "split AT w = [l, d]"
    using spec_local_no_AT[OF sl] spec_domain_no_AT[OF sd] w
    by (simp add: split_append_sep split_nosep)
  with sl sd show "spec_email w" by (simp add: spec_email_def)
qed

lemma matches_emailRegex: "matches emailRegex w \<longleftrightarrow> spec_email w"
proof
  assume "matches emailRegex w"
  then have "w \<in> conc (lang localRegex) (conc {[AT]} (lang domainRegex))"
    by (simp add: matches_lang lang_emailRegex)
  then obtain l x where l: "l \<in> lang localRegex" "x \<in> conc {[AT]} (lang domainRegex)" "w = l @ x"
    unfolding conc_def by blast
  from l(2) obtain d where d: "d \<in> lang domainRegex" "x = AT # d"
    unfolding conc_def by auto
  have sl: "spec_local l" and sd: "spec_domain d"
    using l(1) d(1) by (simp_all add: lang_local lang_domain)
  have "split AT w = [l, d]"
    using spec_local_no_AT[OF sl] spec_domain_no_AT[OF sd] l(3) d(2)
    by (simp add: split_append_sep split_nosep)
  with sl sd show "spec_email w" by (simp add: spec_email_def)
next
  assume "spec_email w"
  then obtain l d where s: "split AT w = [l, d]" "spec_local l" "spec_domain d"
    by (auto simp: spec_email_def split: list.splits)
  have "w = join AT [l, d]" using join_split[of AT w] s(1) by simp
  then have w: "w = l @ ([AT] @ d)" by simp
  have "l \<in> lang localRegex" "d \<in> lang domainRegex"
    using s by (simp_all add: lang_local lang_domain)
  then have "w \<in> conc (lang localRegex) (conc {[AT]} (lang domainRegex))"
    unfolding w by (intro concI) simp_all
  then show "matches emailRegex w"
    by (simp add: matches_lang lang_emailRegex)
qed


section \<open>Trimming\<close>

lemma dropWhile_id: "xs = [] \<or> \<not> P (hd xs) \<Longrightarrow> dropWhile P xs = xs"
  by (cases xs) auto

lemma trim_fixed:
  assumes "s = [] \<or> (\<not> isWhiteSpace (hd s) \<and> \<not> isWhiteSpace (last s))"
  shows "trim s = s"
proof (cases "s = []")
  case True
  then show ?thesis by (simp add: trim_def)
next
  case False
  with assms have h: "\<not> isWhiteSpace (hd s)" and l: "\<not> isWhiteSpace (last s)" by simp_all
  have 1: "dropWhile isWhiteSpace s = s" using h by (simp add: dropWhile_id)
  have "hd (rev s) = last s" using False by (simp add: hd_rev)
  then have 2: "dropWhile isWhiteSpace (rev s) = rev s" using l by (simp add: dropWhile_id)
  show ?thesis by (simp add: trim_def 1 2)
qed

lemma trim_ends:
  "trim s = [] \<or> (\<not> isWhiteSpace (hd (trim s)) \<and> \<not> isWhiteSpace (last (trim s)))"
proof (cases "trim s = []")
  case True
  then show ?thesis by simp
next
  case False
  define t where "t = dropWhile isWhiteSpace s"
  define u where "u = dropWhile isWhiteSpace (rev t)"
  have ts: "trim s = rev u" by (simp add: trim_def t_def u_def)
  with False have u: "u \<noteq> []" by simp
  then have "\<not> isWhiteSpace (hd u)" unfolding u_def by (rule hd_dropWhile)
  then have l: "\<not> isWhiteSpace (last (trim s))" using u ts by (simp add: last_rev)
  from u have t: "t \<noteq> []" unfolding u_def by auto
  then have ht: "\<not> isWhiteSpace (hd t)" unfolding t_def by (rule hd_dropWhile)
  obtain v where v: "rev t = v @ u"
    unfolding u_def by (metis takeWhile_dropWhile_id)
  then have "t = rev u @ rev v" by (metis rev_append rev_rev_ident)
  then have "hd t = hd (rev u)" using u by simp
  with ht ts have "\<not> isWhiteSpace (hd (trim s))" by simp
  with l show ?thesis by simp
qed

lemma trim_trim: "trim (trim s) = trim s"
  by (rule trim_fixed) (rule trim_ends)

lemma trim_surround:
  assumes a: "list_all isWhiteSpace a" and b: "list_all isWhiteSpace b"
  shows "trim (a @ s @ b) = trim s"
proof -
  have 1: "dropWhile isWhiteSpace (a @ s @ b) = dropWhile isWhiteSpace (s @ b)"
    by (rule dropWhile_append2) (use a in \<open>simp add: list_all_iff\<close>)
  show ?thesis
  proof (cases "list_all isWhiteSpace s")
    case True
    then have e: "dropWhile isWhiteSpace (s @ b) = []" "dropWhile isWhiteSpace s = []"
      using b by (simp_all add: list_all_iff)
    show ?thesis by (simp only: trim_def 1 e)
  next
    case False
    then obtain x where "x \<in> set s" "\<not> isWhiteSpace x" by (auto simp: list_all_iff)
    then have 2: "dropWhile isWhiteSpace (s @ b) = dropWhile isWhiteSpace s @ b"
      by (simp add: dropWhile_append1)
    have 3: "dropWhile isWhiteSpace (rev b @ rev (dropWhile isWhiteSpace s))
        = dropWhile isWhiteSpace (rev (dropWhile isWhiteSpace s))"
      by (rule dropWhile_append2) (use b in \<open>simp add: list_all_iff\<close>)
    show ?thesis by (simp only: trim_def 1 2 rev_append 3)
  qed
qed

section \<open>The email predicate\<close>

text \<open>
  C1, with the trimming that \<open>isValidEmail\<close> does first: it accepts a string exactly
  when the trimmed string has the form \<open>local@domain.tld\<close> of the grammar. It accepts
  \<open>a.b+c@sub.example.co\<close> and rejects \<open>a@b\<close> and \<open>a@@b.com\<close>.
\<close>

theorem isValidEmail_grammar:
  "(\<forall>s. isValidEmail s \<longleftrightarrow> spec_email (trim s))
   \<and> isValidEmail (js ''a.b+c@sub.example.co'')
   \<and> \<not> isValidEmail (js ''a@b'')
   \<and> \<not> isValidEmail (js ''a@@b.com'')"
proof -
  have "isValidEmail (js ''a.b+c@sub.example.co'')" by code_simp
  moreover have "\<not> isValidEmail (js ''a@b'')" by code_simp
  moreover have "\<not> isValidEmail (js ''a@@b.com'')" by code_simp
  ultimately show ?thesis by (simp add: isValidEmail_def matches_emailRegex)
qed

text \<open>
  C1 as stated fails on a string with a leading space: the predicate accepts it and the
  grammar does not.
\<close>

theorem isValidEmail_untrimmed_counterexample:
  "\<not> (isValidEmail (js '' a@b.co'') \<longleftrightarrow> spec_email (js '' a@b.co''))"
  by code_simp

text \<open>
  C10. \<open>isValidEmail\<close> gives the same answer on a string and on the trimmed string, and
  so on an address and on that address between runs of white space.
\<close>

theorem isValidEmail_trim_invariant:
  "isValidEmail (trim s) = isValidEmail s
   \<and> (list_all isWhiteSpace a \<and> list_all isWhiteSpace b \<longrightarrow>
        isValidEmail (a @ s @ b) = isValidEmail s)"
  by (simp add: isValidEmail_def trim_trim trim_surround)

theorem isValidEmail_trim_invariant_witness:
  "list_all isWhiteSpace (js ''  '') \<and> list_all isWhiteSpace [0x0A]
   \<and> isValidEmail (js ''  '' @ js ''a@b.co'' @ [0x0A])
   \<and> isValidEmail (trim (js ''  a@b.co '')) \<and> isValidEmail (js ''  a@b.co '')"
proof -
  have ws: "list_all isWhiteSpace (js ''  '')" "list_all isWhiteSpace [0x0A]" by code_simp+
  have v: "isValidEmail (js ''a@b.co'')" by code_simp
  have "isValidEmail (trim (js ''  a@b.co ''))" by code_simp
  with ws v show ?thesis
    using isValidEmail_trim_invariant[of "js ''a@b.co''" "js ''  ''" "[0x0A]"]
      isValidEmail_trim_invariant[of "js ''  a@b.co ''" "[]" "[]"]
    by simp
qed

section \<open>The recipient input\<close>

lemma set_dedupe: "set (dedupe xs) = set xs"
  by (induction xs rule: dedupe.induct) auto

lemma distinct_dedupe: "distinct (dedupe xs)"
  by (induction xs rule: dedupe.induct) (auto simp: set_dedupe)

lemma foldl_push_piece:
  "foldl push_piece acc ps =
     acc @ dedupe (filter (\<lambda>p. isValidEmail p \<and> p \<notin> set acc) ps)"
proof (induction ps arbitrary: acc)
  case Nil
  show ?case by simp
next
  case (Cons p ps)
  show ?case
  proof (cases "isValidEmail p \<and> p \<notin> set acc")
    case True
    have "filter (\<lambda>q. isValidEmail q \<and> q \<notin> set (acc @ [p])) ps
        = filter (\<lambda>y. y \<noteq> p) (filter (\<lambda>q. isValidEmail q \<and> q \<notin> set acc) ps)"
      by (induction ps) auto
    with True Cons.IH[of "acc @ [p]"] show ?thesis
      by (simp add: push_piece_def)
  next
    case False
    with Cons.IH[of acc] show ?thesis
      by (auto simp: push_piece_def)
  qed
qed

text \<open>
  C7. \<open>add\<close> splits the input on commas, trims the pieces, drops the empty ones, and
  appends to the committed list, in order and once each, the pieces that pass
  \<open>isValidEmail\<close> and are not in the list yet. From the empty list,
  \<open>x@y.com, bad, z@y.com\<close> gives \<open>x@y.com\<close> and \<open>z@y.com\<close>.
\<close>

theorem add_commits_valid_new_pieces:
  "fst (add values input) =
     values @ dedupe (filter (\<lambda>p. isValidEmail p \<and> p \<notin> set values)
                        (filter nonEmpty (map trim (split COMMA input))))
   \<and> add [] (js ''x@y.com, bad, z@y.com'') = ([js ''x@y.com'', js ''z@y.com''], [])"
proof -
  define pieces where "pieces = filter nonEmpty (map trim (split COMMA input))"
  have "fst (add values input) =
          values @ dedupe (filter (\<lambda>p. isValidEmail p \<and> p \<notin> set values) pieces)"
  proof (cases "pieces = []")
    case True
    then show ?thesis by (simp add: add_def flip: pieces_def)
  next
    case False
    then show ?thesis by (simp add: add_def foldl_push_piece flip: pieces_def)
  qed
  moreover have "add [] (js ''x@y.com, bad, z@y.com'') = ([js ''x@y.com'', js ''z@y.com''], [])"
    by code_simp
  ultimately show ?thesis unfolding pieces_def by (rule conjI)
qed


section \<open>The handler, case by case\<close>

lemma isMultipart_json_request: "\<not> isMultipart rt (json_request j)"
  by (simp add: isMultipart_def json_request_def toLowerCase_def js_def asciiLower_def)

lemma isMultipart_multipart_request: "isMultipart rt (multipart_request form)"
  by (simp add: isMultipart_def multipart_request_def toLowerCase_def js_def asciiLower_def)

lemma parseRequest_multipart:
  assumes "isMultipart rt req" "formData req = Inr form"
  shows "parseRequest rt req =
     Inr (\<lparr>f_from = JStr (String_or_empty (form_get form (js ''from''))),
           f_to = JArr (map JStr (parseCommaOrArray (to_value_of (form_get form (js ''to''))))),
           f_subject = JStr (String_or_empty (form_get form (js ''subject''))),
           f_bodyHtml = JStr (String_or_empty (form_get form (js ''bodyHtml'')))\<rparr>,
          file_attachments (form_getAll form (js ''attachments'')))"
  using assms by (simp add: parseRequest_def)

lemma parseRequest_json_object:
  assumes "\<not> isMultipart rt req" "json req = Inr (JObj ps)"
    and "attachments_map rt (or_else (own ps ''attachments'') (JArr [])) = Inr atts"
  shows "parseRequest rt req =
     Inr (\<lparr>f_from = or_else (own ps ''from'') (JStr []),
           f_to = or_else (own ps ''to'') (JArr []),
           f_subject = or_else (own ps ''subject'') (JStr []),
           f_bodyHtml = or_else (own ps ''bodyHtml'') (JStr [])\<rparr>, atts)"
  using assms by (simp add: parseRequest_def and_then_def)

lemma parseRequest_json_failed:
  assumes "\<not> isMultipart rt req" "json req = Inl e"
  shows "parseRequest rt req =
     Inr (\<lparr>f_from = JStr [], f_to = JArr [], f_subject = JStr [], f_bodyHtml = JStr []\<rparr>, [])"
  using assms by (simp add: parseRequest_def and_then_def own_def or_else_def)

lemma parseRequest_json_request:
  assumes "attachments_map rt (or_else (own ps ''attachments'') (JArr [])) = Inr atts"
  shows "parseRequest rt (json_request (JObj ps)) =
     Inr (\<lparr>f_from = or_else (own ps ''from'') (JStr []),
           f_to = or_else (own ps ''to'') (JArr []),
           f_subject = or_else (own ps ''subject'') (JStr []),
           f_bodyHtml = or_else (own ps ''bodyHtml'') (JStr [])\<rparr>, atts)"
  by (rule parseRequest_json_object[OF isMultipart_json_request _ assms])
     (simp add: json_request_def)

lemma parseRequest_json_body:
  "parseRequest rt (json_request (json_body from_v to_v)) =
     Inr (\<lparr>f_from = or_else from_v (JStr []), f_to = or_else to_v (JArr []),
           f_subject = JStr (js ''Referral''), f_bodyHtml = JStr (js ''<p>Hello</p>'')\<rparr>, [])"
proof -
  have "parseRequest rt (json_request (json_body from_v to_v)) =
     Inr (\<lparr>f_from = or_else from_v (JStr []), f_to = or_else to_v (JArr []),
           f_subject = or_else (JStr (js ''Referral'')) (JStr []),
           f_bodyHtml = or_else (JStr (js ''<p>Hello</p>'')) (JStr [])\<rparr>, [])"
    unfolding json_body_def
    by (subst parseRequest_json_request[where atts = "[]"])
       (simp_all add: own_def or_else_def js_def)
  then show ?thesis by (simp add: or_else_def js_def)
qed

lemma parseRequest_multipart_request:
  "parseRequest rt (multipart_request form) =
     Inr (\<lparr>f_from = JStr (String_or_empty (form_get form (js ''from''))),
           f_to = JArr (map JStr (parseCommaOrArray (to_value_of (form_get form (js ''to''))))),
           f_subject = JStr (String_or_empty (form_get form (js ''subject''))),
           f_bodyHtml = JStr (String_or_empty (form_get form (js ''bodyHtml'')))\<rparr>,
          file_attachments (form_getAll form (js ''attachments'')))"
  by (rule parseRequest_multipart[OF isMultipart_multipart_request])
     (simp add: multipart_request_def)

lemma every_isValidEmail_strings:
  "every_isValidEmail rt (map JStr ts) = Inr (list_all isValidEmail ts)"
  by (induction ts) (simp_all add: and_then_def)

lemma join_value_strings: "join_value rt (JArr (map JStr ts)) = Inr (join COMMA ts)"
proof -
  have "map (entry_string rt) (map JStr ts) = ts" by (induction ts) simp_all
  then show ?thesis by simp
qed

lemma truthy_length: "truthy (JNum (Finite (of_nat n))) \<longleftrightarrow> n \<noteq> 0"
  by simp


lemma POST_falsy_from:
  assumes "parseRequest rt req = Inr (flds, atts)" and "\<not> truthy (f_from flds)"
  shows "POST rt env req = invalid_from"
  using assms by (simp add: POST_def)



text \<open>After a valid \<open>from\<close>, the handler goes on to \<open>to\<close>.\<close>

lemma POST_valid_from:
  assumes "parseRequest rt req = Inr (flds, atts)"
    and "f_from flds = JStr s" "s \<noteq> []" "isValidEmail s" "f_to flds = JArr xs"
  shows "POST rt env req =
     (if xs = [] then invalid_to
      else case every_isValidEmail rt xs of
        Inl e \<Rightarrow> (caught e, [])
      | Inr to_valid \<Rightarrow>
          if \<not> to_valid then invalid_to
          else if unset (env (js ''SMTP_HOST'')) \<or> unset (env (js ''SMTP_USER''))
                  \<or> unset (env (js ''SMTP_PASS'')) then
            (json_response
               (ErrorBody (js ''SMTP credentials are not configured on the server'')) 500, [])
          else
          case createTransport rt (smtp_options rt env) of
            Some e \<Rightarrow> (caught e, [CreateTransport (smtp_options rt env)])
          | None \<Rightarrow>
          case join_value rt (JArr xs) of
            Inl e \<Rightarrow> (caught e, [CreateTransport (smtp_options rt env)])
          | Inr to_joined \<Rightarrow>
          (let m = \<lparr>mail_from = JStr s,
                    mail_to = to_joined,
                    mail_subject = f_subject flds,
                    mail_html = or_else (f_bodyHtml flds) (JStr []),
                    mail_attachments = atts\<rparr>
           in case sendMail rt (smtp_options rt env) m of
                Inl e \<Rightarrow>
                  (caught e, [CreateTransport (smtp_options rt env),
                              SendMail (smtp_options rt env) m])
              | Inr info \<Rightarrow>
                  (json_response (SuccessBody (messageId info)) 200,
                   [CreateTransport (smtp_options rt env),
                    SendMail (smtp_options rt env) m])))"
  using assms by (simp add: POST_def cong: sum.case_cong option.case_cong if_cong)

lemma POST_invalid_to:
  assumes "parseRequest rt req = Inr (flds, atts)"
    and "f_from flds = JStr s" "s \<noteq> []" "isValidEmail s"
    and "f_to flds = JArr (map JStr ts)" "ts = [] \<or> \<not> list_all isValidEmail ts"
  shows "POST rt env req = invalid_to"
  using assms(6)
  by (auto simp: POST_valid_from[OF assms(1-5)] every_isValidEmail_strings)


lemma POST_valid:
  assumes "parseRequest rt req = Inr (flds, atts)"
    and "f_from flds = JStr s" "s \<noteq> []" "isValidEmail s"
    and "f_to flds = JArr (map JStr ts)" "ts \<noteq> []" "list_all isValidEmail ts"
    and "\<not> unset (env (js ''SMTP_HOST''))" "\<not> unset (env (js ''SMTP_USER''))"
        "\<not> unset (env (js ''SMTP_PASS''))"
    and "m = \<lparr>mail_from = JStr s, mail_to = join COMMA ts,
               mail_subject = f_subject flds,
               mail_html = or_else (f_bodyHtml flds) (JStr []),
               mail_attachments = atts\<rparr>"
  shows "POST rt env req =
     (case createTransport rt (smtp_options rt env) of
        Some e \<Rightarrow> (caught e, [CreateTransport (smtp_options rt env)])
      | None \<Rightarrow>
          (case sendMail rt (smtp_options rt env) m of
             Inl e \<Rightarrow> (caught e, [CreateTransport (smtp_options rt env),
                                 SendMail (smtp_options rt env) m])
           | Inr info \<Rightarrow> (\<lparr>status = 200, body = SuccessBody (messageId info)\<rparr>,
                          [CreateTransport (smtp_options rt env),
                           SendMail (smtp_options rt env) m])))"
  using assms(6-10) unfolding assms(11)
  by (simp add: POST_valid_from[OF assms(1-5)] every_isValidEmail_strings join_value_strings
      json_response_def Let_def del: join_value.simps
      cong: option.case_cong sum.case_cong)

lemma POST_created:
  assumes "CreateTransport opts \<in> set (snd (POST rt env req))"
  shows "opts = smtp_options rt env"
  using assms
  by (auto simp: POST_def Let_def invalid_from_def invalid_to_def
      split: sum.splits if_splits option.splits prod.splits)


section \<open>Validation, configuration and delivery\<close>




text \<open>
  C4. With \<open>from\<close> and \<open>to\<close> valid, when one of \<open>SMTP_HOST\<close>, \<open>SMTP_USER\<close>,
  \<open>SMTP_PASS\<close> is unset (or empty) the response is 500 with the configuration error,
  and no call is made on nodemailer.
\<close>

theorem POST_unconfigured:
  assumes "parseRequest rt req = Inr (flds, atts)"
    and "f_from flds = JStr s" "s \<noteq> []" "isValidEmail s"
    and "f_to flds = JArr (map JStr ts)" "ts \<noteq> []" "list_all isValidEmail ts"
    and "unset (env (js ''SMTP_HOST'')) \<or> unset (env (js ''SMTP_USER''))
         \<or> unset (env (js ''SMTP_PASS''))"
  shows "POST rt env req =
     (\<lparr>status = 500,
       body = ErrorBody (js ''SMTP credentials are not configured on the server'')\<rparr>, [])"
  using assms(6-8)
  by (simp add: POST_valid_from[OF assms(1-5)] every_isValidEmail_strings json_response_def)

theorem POST_unconfigured_witness:
  "POST example_runtime (example_env(js ''SMTP_HOST'' := None))
        (json_request (json_body (JStr (js ''me@x.com''))
                                 (JArr (map JStr [js ''a@x.com'', js ''b@x.com''])))) =
     (\<lparr>status = 500,
       body = ErrorBody (js ''SMTP credentials are not configured on the server'')\<rparr>, [])"
proof -
  have v: "isValidEmail (js ''me@x.com'')" "js ''me@x.com'' \<noteq> []"
    "list_all isValidEmail [js ''a@x.com'', js ''b@x.com'']"
    by code_simp+
  have u: "unset ((example_env(js ''SMTP_HOST'' := None)) (js ''SMTP_HOST''))"
    by (simp add: unset_def)
  show ?thesis
    by (rule POST_unconfigured[OF parseRequest_json_body, where s = "js ''me@x.com''"
          and ts = "[js ''a@x.com'', js ''b@x.com'']"])
       (use v u in \<open>simp_all add: or_else_def\<close>)
qed

lemma file_attachments_files_of:
  "map (\<lambda>a. (filename a, content a)) (file_attachments es)
     = map (\<lambda>f. (JStr (file_name f), file_bytes f)) (files_of es)"
  by (induction es rule: files_of.induct) simp_all

lemma json_attachment_object:
  assumes "own a ''content'' = JStr text"
  shows "json_attachment rt (JObj a) =
     Inr \<lparr>filename = own a ''filename'', content = base64 rt text,
          contentType = own a ''contentType''\<rparr>"
  using assms by (simp add: json_attachment_def and_then_def)

text \<open>
  C5. With valid fields, the SMTP settings present, a transport that is created and
  accepts the message under a non-empty identifier, and exactly one uploaded file (a
  \<open>File\<close> part, or one entry of the JSON \<open>attachments\<close> with base64 text as content),
  the response is 200 with the identifier the transport gave, and the message handed to
  \<open>sendMail\<close> has exactly one attachment, with the uploaded file name and the uploaded
  bytes (for JSON, the bytes decoded from the base64 text).
\<close>

theorem POST_sends_one_attachment:
  assumes one:
      "(isMultipart rt req \<and> formData req = Inr form
          \<and> files_of (form_getAll form (js ''attachments'')) = [f]
          \<and> name = JStr (file_name f) \<and> data = file_bytes f)
       \<or> (\<not> isMultipart rt req \<and> json req = Inr (JObj ps)
          \<and> own ps ''attachments'' = JArr [JObj a]
          \<and> name = own a ''filename'' \<and> own a ''content'' = JStr text
          \<and> data = base64 rt text)"
    and parse: "parseRequest rt req = Inr (flds, atts)"
    and valid: "f_from flds = JStr s" "s \<noteq> []" "isValidEmail s"
               "f_to flds = JArr (map JStr ts)" "ts \<noteq> []" "list_all isValidEmail ts"
    and conf: "\<not> unset (env (js ''SMTP_HOST''))" "\<not> unset (env (js ''SMTP_USER''))"
              "\<not> unset (env (js ''SMTP_PASS''))"
    and m: "m = \<lparr>mail_from = JStr s, mail_to = join COMMA ts,
                  mail_subject = f_subject flds,
                  mail_html = or_else (f_bodyHtml flds) (JStr []),
                  mail_attachments = atts\<rparr>"
    and created: "createTransport rt (smtp_options rt env) = None"
    and sent: "sendMail rt (smtp_options rt env) m = Inr info" "messageId info \<noteq> []"
  shows "POST rt env req =
           (\<lparr>status = 200, body = SuccessBody (messageId info)\<rparr>,
            [CreateTransport (smtp_options rt env), SendMail (smtp_options rt env) m])
         \<and> messageId info \<noteq> []
         \<and> map (\<lambda>a. (filename a, content a)) (mail_attachments m) = [(name, data)]"
proof -
  have "POST rt env req =
          (\<lparr>status = 200, body = SuccessBody (messageId info)\<rparr>,
           [CreateTransport (smtp_options rt env), SendMail (smtp_options rt env) m])"
    using POST_valid[OF parse valid conf m] created sent(1) by simp
  moreover have "map (\<lambda>a. (filename a, content a)) atts = [(name, data)]"
    using one
  proof
    assume mp: "isMultipart rt req \<and> formData req = Inr form
          \<and> files_of (form_getAll form (js ''attachments'')) = [f]
          \<and> name = JStr (file_name f) \<and> data = file_bytes f"
    then have "atts = file_attachments (form_getAll form (js ''attachments''))"
      using parse parseRequest_multipart[of rt req form] by simp
    with mp show ?thesis by (simp add: file_attachments_files_of)
  next
    assume js: "\<not> isMultipart rt req \<and> json req = Inr (JObj ps)
          \<and> own ps ''attachments'' = JArr [JObj a]
          \<and> name = own a ''filename'' \<and> own a ''content'' = JStr text
          \<and> data = base64 rt text"
    then have am: "attachments_map rt (or_else (own ps ''attachments'') (JArr [])) =
        Inr [\<lparr>filename = own a ''filename'', content = base64 rt text,
              contentType = own a ''contentType''\<rparr>]"
      by (simp add: or_else_def json_attachment_object and_then_def)
    have "atts = [\<lparr>filename = own a ''filename'', content = base64 rt text,
              contentType = own a ''contentType''\<rparr>]"
      using parse parseRequest_json_object[OF _ _ am, of req] js by simp
    with js show ?thesis by simp
  qed
  ultimately show ?thesis using sent(2) by (simp add: m)
qed

theorem POST_sends_one_attachment_witness:
  "POST example_runtime example_env (multipart_request valid_form) =
     (\<lparr>status = 200, body = SuccessBody (js ''<1@example.com>'')\<rparr>,
      [CreateTransport (example_options True),
       SendMail (example_options True) (example_mail [uploaded_file_attachment])])
   \<and> POST example_runtime example_env (json_request valid_json_body) =
     (\<lparr>status = 200, body = SuccessBody (js ''<1@example.com>'')\<rparr>,
      [CreateTransport (example_options True),
       SendMail (example_options True) (example_mail [uploaded_json_attachment])])"
proof -
  have conf: "\<not> unset (example_env (js ''SMTP_HOST''))" "\<not> unset (example_env (js ''SMTP_USER''))"
    "\<not> unset (example_env (js ''SMTP_PASS''))"
    by (simp_all add: unset_def example_env_def js_def)
  have opts: "smtp_options example_runtime example_env = example_options True"
    by code_simp
  have created: "createTransport example_runtime (smtp_options example_runtime example_env) = None"
    by (simp add: example_runtime_def)
  have sent: "sendMail example_runtime (smtp_options example_runtime example_env) m
      = Inr \<lparr>messageId = js ''<1@example.com>''\<rparr>" for m
    by (simp add: example_runtime_def)
  have id: "messageId \<lparr>messageId = js ''<1@example.com>''\<rparr> \<noteq> []"
    by (simp add: js_def)
  have v: "isValidEmail (js ''me@x.com'')" "js ''me@x.com'' \<noteq> []"
    "list_all isValidEmail [js ''a@x.com'', js ''b@x.com'']"
    "join COMMA [js ''a@x.com'', js ''b@x.com''] = js ''a@x.com,b@x.com''"
    by code_simp+
  have p1: "parseRequest example_runtime (multipart_request valid_form) =
      Inr (\<lparr>f_from = JStr (js ''me@x.com''),
             f_to = JArr [JStr (js ''a@x.com''), JStr (js ''b@x.com'')],
             f_subject = JStr (js ''Referral''), f_bodyHtml = JStr (js ''<p>Hello</p>'')\<rparr>,
           [uploaded_file_attachment])"
    by code_simp
  have p2: "parseRequest example_runtime (json_request valid_json_body) =
      Inr (\<lparr>f_from = JStr (js ''me@x.com''),
             f_to = JArr [JStr (js ''a@x.com''), JStr (js ''b@x.com'')],
             f_subject = JStr (js ''Referral''), f_bodyHtml = JStr (js ''<p>Hello</p>'')\<rparr>,
           [uploaded_json_attachment])"
    by code_simp
  have one1: "isMultipart example_runtime (multipart_request valid_form)
      \<and> formData (multipart_request valid_form) = Inr valid_form
      \<and> files_of (form_getAll valid_form (js ''attachments'')) = [example_file]
      \<and> JStr (js ''cv.pdf'') = JStr (file_name example_file)
      \<and> [0x25, 0x50, 0x44, 0x46] = file_bytes example_file"
    by (simp add: isMultipart_multipart_request)
       (simp add: multipart_request_def form_getAll_def valid_form_def example_file_def js_def)
  have one2: "\<not> isMultipart example_runtime (json_request valid_json_body)
      \<and> json (json_request valid_json_body) =
          Inr (JObj [(js ''from'', JStr (js ''me@x.com'')),
                     (js ''to'', JArr [JStr (js ''a@x.com''), JStr (js ''b@x.com'')]),
                     (js ''subject'', JStr (js ''Referral'')),
                     (js ''bodyHtml'', JStr (js ''<p>Hello</p>'')),
                     (js ''attachments'', JArr [example_json_attachment])])
      \<and> own [(js ''from'', JStr (js ''me@x.com'')),
               (js ''to'', JArr [JStr (js ''a@x.com''), JStr (js ''b@x.com'')]),
               (js ''subject'', JStr (js ''Referral'')),
               (js ''bodyHtml'', JStr (js ''<p>Hello</p>'')),
               (js ''attachments'', JArr [example_json_attachment])] ''attachments''
          = JArr [JObj [(js ''filename'', JStr (js ''hi.txt'')),
                        (js ''content'', JStr (js ''aGk=''))]]
      \<and> JStr (js ''hi.txt'') =
          own [(js ''filename'', JStr (js ''hi.txt'')), (js ''content'', JStr (js ''aGk=''))]
            ''filename''
      \<and> own [(js ''filename'', JStr (js ''hi.txt'')), (js ''content'', JStr (js ''aGk=''))]
            ''content'' = JStr (js ''aGk='')
      \<and> [0x68, 0x69] = base64 example_runtime (js ''aGk='')"
    by (simp add: isMultipart_json_request)
       (simp add: json_request_def valid_json_body_def example_json_attachment_def own_def
          example_runtime_def js_def)
  have m1: "example_mail [uploaded_file_attachment] =
      \<lparr>mail_from = JStr (js ''me@x.com''),
       mail_to = join COMMA [js ''a@x.com'', js ''b@x.com''],
       mail_subject = JStr (js ''Referral''),
       mail_html = or_else (JStr (js ''<p>Hello</p>'')) (JStr []),
       mail_attachments = [uploaded_file_attachment]\<rparr>"
    and m2: "example_mail [uploaded_json_attachment] =
      \<lparr>mail_from = JStr (js ''me@x.com''),
       mail_to = join COMMA [js ''a@x.com'', js ''b@x.com''],
       mail_subject = JStr (js ''Referral''),
       mail_html = or_else (JStr (js ''<p>Hello</p>'')) (JStr []),
       mail_attachments = [uploaded_json_attachment]\<rparr>"
    by (simp_all add: example_mail_def v(4) or_else_def js_def)
  have 1: "POST example_runtime example_env (multipart_request valid_form) =
     (\<lparr>status = 200, body = SuccessBody (js ''<1@example.com>'')\<rparr>,
      [CreateTransport (example_options True),
       SendMail (example_options True) (example_mail [uploaded_file_attachment])])"
    using POST_sends_one_attachment[where ts = "[js ''a@x.com'', js ''b@x.com'']"
        and m = "example_mail [uploaded_file_attachment]",
        OF disjI1[OF one1] p1 _ v(2) v(1) _ _ v(3) conf _ created sent id]
    by (simp add: m1 opts)
  have 2: "POST example_runtime example_env (json_request valid_json_body) =
     (\<lparr>status = 200, body = SuccessBody (js ''<1@example.com>'')\<rparr>,
      [CreateTransport (example_options True),
       SendMail (example_options True) (example_mail [uploaded_json_attachment])])"
    using POST_sends_one_attachment[where ts = "[js ''a@x.com'', js ''b@x.com'']"
        and m = "example_mail [uploaded_json_attachment]",
        OF disjI2[OF one2] p2 _ v(2) v(1) _ _ v(3) conf _ created sent id]
    by (simp add: m2 opts)
  from 1 2 show ?thesis by (rule conjI)
qed

lemma toLowerCase_false: "toLowerCase u (js ''false'') = js ''false''"
  by (simp add: toLowerCase_def js_def asciiLower_def)

lemma toLowerCase_Nil: "toLowerCase u [] = []"
  by (simp add: toLowerCase_def)

text \<open>
  C8. The options given to \<open>createTransport\<close> have port 587 when \<open>SMTP_PORT\<close> is unset
  and \<open>secure = false\<close> when \<open>SMTP_SECURE\<close> is unset; when \<open>SMTP_SECURE\<close> is set,
  \<open>secure\<close> is true exactly when the value in lower case equals \<open>true\<close>.
\<close>

theorem smtp_defaults:
  assumes "CreateTransport opts \<in> set (snd (POST rt env req))"
  shows "(env (js ''SMTP_PORT'') = None \<longrightarrow> port opts = Finite 587)
       \<and> (env (js ''SMTP_SECURE'') = None \<longrightarrow> \<not> secure opts)
       \<and> (\<forall>v. env (js ''SMTP_SECURE'') = Some v \<longrightarrow>
             secure opts = (toLowerCase (unicodeLower rt) v = js ''true''))"
proof -
  have ne: "js ''false'' \<noteq> js ''true''" "[] \<noteq> js ''true''" by (simp_all add: js_def)
  have "port opts = smtp_port rt env" "secure opts = smtp_secure rt env"
    using POST_created[OF assms] by (simp_all add: smtp_options_def)
  then show ?thesis
    using ne by (auto simp: smtp_port_def smtp_secure_def unset_def toLowerCase_false toLowerCase_Nil)
qed

theorem smtp_defaults_witness:
  "CreateTransport (example_options True)
     \<in> set (snd (POST example_runtime example_env (json_request valid_json_body)))
   \<and> CreateTransport (example_options False)
     \<in> set (snd (POST example_runtime (example_env(js ''SMTP_SECURE'' := None))
                   (json_request valid_json_body)))
   \<and> example_env (js ''SMTP_PORT'') = None
   \<and> example_env (js ''SMTP_SECURE'') = Some (js ''TRUE'')
   \<and> port (example_options True) = Finite 587
   \<and> secure (example_options True)
   \<and> \<not> secure (example_options False)"
proof -
  have 1: "CreateTransport (example_options True)
     \<in> set (snd (POST example_runtime example_env (json_request valid_json_body)))"
    by code_simp
  have 2: "CreateTransport (example_options False)
     \<in> set (snd (POST example_runtime (example_env(js ''SMTP_SECURE'' := None))
                   (json_request valid_json_body)))"
    by code_simp
  have e: "example_env (js ''SMTP_PORT'') = None"
    "example_env (js ''SMTP_SECURE'') = Some (js ''TRUE'')"
    "(example_env(js ''SMTP_SECURE'' := None)) (js ''SMTP_SECURE'') = None"
    by (simp_all add: example_env_def js_def)
  have l: "toLowerCase (unicodeLower example_runtime) (js ''TRUE'') = js ''true''"
    by (simp add: toLowerCase_def js_def asciiLower_def)
  show ?thesis
    using smtp_defaults[OF 1] smtp_defaults[OF 2] 1 2 e l by simp
qed

text \<open>
  C9. When the request is not multipart and \<open>req.json()\<close> rejects, the body counts as
  empty: every field is empty and there is no attachment, and the response is the 400
  error about \<open>'from'\<close>.
\<close>

theorem POST_unparsable_json:
  assumes "\<not> isMultipart rt req" "json req = Inl e"
  shows "parseRequest rt req =
           Inr (\<lparr>f_from = JStr [], f_to = JArr [], f_subject = JStr [], f_bodyHtml = JStr []\<rparr>,
                [])
       \<and> POST rt env req =
           (\<lparr>status = 400, body = ErrorBody (js ''Valid 'from' email is required'')\<rparr>, [])"
  using parseRequest_json_failed[OF assms]
  by (simp add: POST_falsy_from invalid_from_def json_response_def)

theorem POST_unparsable_json_witness:
  "\<not> isMultipart example_runtime broken_json_request
   \<and> json broken_json_request = Inl (Error (js ''Unexpected token } in JSON at position 1''))
   \<and> POST example_runtime example_env broken_json_request =
       (\<lparr>status = 400, body = ErrorBody (js ''Valid 'from' email is required'')\<rparr>, [])"
proof -
  have 1: "\<not> isMultipart example_runtime broken_json_request"
    by (simp add: isMultipart_def broken_json_request_def toLowerCase_def js_def asciiLower_def)
  have 2: "json broken_json_request = Inl (Error (js ''Unexpected token } in JSON at position 1''))"
    by (simp add: broken_json_request_def)
  show ?thesis using POST_unparsable_json[OF 1 2, of example_env] 1 2 by simp
qed


section \<open>Normalising the recipients\<close>

lemma split_append_sep_any: "split sep (x @ sep # w) = split sep x @ split sep w"
proof (induction x)
  case Nil
  show ?case by simp
next
  case (Cons c cs)
  obtain p ps where "split sep cs = p # ps"
    using split_not_Nil[of sep cs] by (cases "split sep cs") auto
  with Cons show ?case by simp
qed

lemma split_join_concat:
  "xs \<noteq> [] \<Longrightarrow> split sep (join sep xs) = concat (map (split sep) xs)"
proof (induction xs)
  case Nil
  then show ?case by simp
next
  case (Cons x xs)
  show ?case
  proof (cases "xs = []")
    case True
    then show ?thesis by simp
  next
    case False
    with Cons.IH show ?thesis by (simp add: join_Cons split_append_sep_any)
  qed
qed

lemma trim_Nil: "trim [] = []"
  by (simp add: trim_def)

lemma parseCommaOrArray_string:
  "parseCommaOrArray (Entry (StringEntry s)) = filter nonEmpty (map trim (split COMMA s))"
  by (simp add: trim_Nil nonEmpty_def)

lemma parseCommaOrArray_list_as_string:
  "parseCommaOrArray (Array (map StringEntry xs))
     = parseCommaOrArray (Entry (StringEntry (join COMMA xs)))"
proof (cases "xs = []")
  case True
  then show ?thesis by simp
next
  case False
  have "map (\<lambda>v. case v of StringEntry s \<Rightarrow> s | FileEntry f \<Rightarrow> []) (map StringEntry xs) = xs"
    by (induction xs) simp_all
  then have "parseCommaOrArray (Array (map StringEntry xs))
      = filter nonEmpty (map trim (concat (map (split COMMA) xs)))"
    by (simp only: parseCommaOrArray.simps)
  also have "\<dots> = filter nonEmpty (map trim (split COMMA (join COMMA xs)))"
    by (simp only: split_join_concat[OF False])
  finally show ?thesis by (simp only: parseCommaOrArray_string)
qed

lemma set_trim: "set (trim s) \<subseteq> set s"
proof -
  have "set (trim s) = set (dropWhile isWhiteSpace (rev (dropWhile isWhiteSpace s)))"
    by (simp add: trim_def)
  also have "\<dots> \<subseteq> set (rev (dropWhile isWhiteSpace s))"
    by (auto dest: set_dropWhileD)
  also have "\<dots> \<subseteq> set s"
    by (auto dest: set_dropWhileD)
  finally show ?thesis .
qed

lemma set_split_pieces: "p \<in> set (concat (map (split sep) xs)) \<Longrightarrow> sep \<notin> set p"
  by (auto dest: split_pieces_nosep)

lemma parseCommaOrArray_normalized:
  assumes "x \<in> set (parseCommaOrArray v)"
  shows "x \<noteq> [] \<and> trim x = x \<and> COMMA \<notin> set x"
proof -
  have "\<exists>ps. parseCommaOrArray v = filter nonEmpty (map trim ps) \<and> (\<forall>p \<in> set ps. COMMA \<notin> set p)"
  proof (cases v rule: parseCommaOrArray.cases)
    case 1
    then show ?thesis by (intro exI[of _ "[]"]) simp
  next
    case (2 vs)
    then show ?thesis
      by (intro exI[of _ "concat (map (split COMMA)
            (map (\<lambda>v. case v of StringEntry s \<Rightarrow> s | FileEntry f \<Rightarrow> []) vs))"])
         (auto dest: split_pieces_nosep)
  next
    case (3 s)
    then show ?thesis
      by (intro exI[of _ "split COMMA s"])
         (auto simp only: parseCommaOrArray_string dest: split_pieces_nosep)
  next
    case (4 f)
    then show ?thesis by (intro exI[of _ "split COMMA []"]) simp
  qed
  then obtain ps where ps: "parseCommaOrArray v = filter nonEmpty (map trim ps)"
    "\<forall>p \<in> set ps. COMMA \<notin> set p" by blast
  with assms obtain p where p: "p \<in> set ps" "x = trim p" "x \<noteq> []"
    by (auto simp: nonEmpty_def)
  then have "COMMA \<notin> set x" using ps(2) set_trim[of p] by auto
  with p show ?thesis by (simp add: trim_trim)
qed

text \<open>
  C2, on a JSON body whose \<open>to\<close> is the list of the one string \<open>a@x.com, b@x.com\<close>:
  \<open>parseRequest\<close> hands the list on as it is, neither split nor trimmed, and the
  response is the 400 error about \<open>'to'\<close>. The same text in the \<open>to\<close> field of a
  multipart body goes through \<open>parseCommaOrArray\<close> and gives two recipients.
\<close>

theorem json_to_not_normalized:
  "parseRequest rt (json_request comma_json_body) =
     Inr (\<lparr>f_from = JStr (js ''me@x.com''), f_to = JArr [JStr (js ''a@x.com, b@x.com'')],
           f_subject = JStr (js ''Referral''), f_bodyHtml = JStr (js ''<p>Hello</p>'')\<rparr>, [])
   \<and> POST rt env (json_request comma_json_body) =
     (\<lparr>status = 400, body = ErrorBody (js ''Provide at least one valid 'to' email'')\<rparr>, [])
   \<and> parseRequest rt (multipart_request comma_form) =
     Inr (\<lparr>f_from = JStr (js ''me@x.com''),
           f_to = JArr [JStr (js ''a@x.com''), JStr (js ''b@x.com'')],
           f_subject = JStr (js ''Referral''), f_bodyHtml = JStr (js ''<p>Hello</p>'')\<rparr>, [])"
proof -
  have v: "js ''me@x.com'' \<noteq> []" "isValidEmail (js ''me@x.com'')"
    "\<not> list_all isValidEmail [js ''a@x.com, b@x.com'']"
    by code_simp+
  have j: "parseRequest rt (json_request comma_json_body) =
     Inr (\<lparr>f_from = JStr (js ''me@x.com''), f_to = JArr [JStr (js ''a@x.com, b@x.com'')],
           f_subject = JStr (js ''Referral''), f_bodyHtml = JStr (js ''<p>Hello</p>'')\<rparr>, [])"
    using v(1) by (simp add: comma_json_body_def parseRequest_json_body or_else_def)
  have p: "POST rt env (json_request comma_json_body) =
     (\<lparr>status = 400, body = ErrorBody (js ''Provide at least one valid 'to' email'')\<rparr>, [])"
    using POST_invalid_to[OF j, where s = "js ''me@x.com''" and ts = "[js ''a@x.com, b@x.com'']"] v
    by (simp add: invalid_to_def json_response_def)
  have f: "String_or_empty (form_get comma_form (js ''from'')) = js ''me@x.com''"
    "parseCommaOrArray (to_value_of (form_get comma_form (js ''to'')))
       = [js ''a@x.com'', js ''b@x.com'']"
    "String_or_empty (form_get comma_form (js ''subject'')) = js ''Referral''"
    "String_or_empty (form_get comma_form (js ''bodyHtml'')) = js ''<p>Hello</p>''"
    "file_attachments (form_getAll comma_form (js ''attachments'')) = []"
    by code_simp+
  have m: "parseRequest rt (multipart_request comma_form) =
     Inr (\<lparr>f_from = JStr (js ''me@x.com''),
           f_to = JArr [JStr (js ''a@x.com''), JStr (js ''b@x.com'')],
           f_subject = JStr (js ''Referral''), f_bodyHtml = JStr (js ''<p>Hello</p>'')\<rparr>, [])"
    by (simp add: parseRequest_multipart_request f)
  from j p m show ?thesis by (intro conjI)
qed

lemma parseCommaOrArray_example:
  "parseCommaOrArray (Entry (StringEntry (js ''a@x.com,b@x.com''))) = [js ''a@x.com'', js ''b@x.com'']
   \<and> parseCommaOrArray (Array [StringEntry (js ''a@x.com''), StringEntry (js ''b@x.com'')])
       = [js ''a@x.com'', js ''b@x.com'']"
  by code_simp

lemma parseRequest_multipart_to:
  assumes "isMultipart rt req" "formData req = Inr form"
    and "form_get form (js ''to'') = Some (StringEntry s)"
    and "parseRequest rt req = Inr (flds, atts)"
  shows "f_to flds = JArr (map JStr (filter nonEmpty (map trim (split COMMA s))))"
proof -
  have "f_to flds = JArr (map JStr (parseCommaOrArray (to_value_of (form_get form (js ''to'')))))"
    using assms(4) parseRequest_multipart[OF assms(1,2)] by auto
  then show ?thesis
    by (simp only: assms(3) to_value_of.simps parseCommaOrArray_string)
qed

text \<open>
  The example of the specification: the text \<open>a@x.com,b@x.com\<close> in a multipart body and
  the list of \<open>a@x.com\<close> and \<open>b@x.com\<close> in a JSON body give the same two recipients.
\<close>

lemma example_recipients_agree:
  "map_sum id (\<lambda>p. f_to (fst p)) (parseRequest example_runtime (multipart_request valid_form))
     = Inr (JArr [JStr (js ''a@x.com''), JStr (js ''b@x.com'')])
   \<and> map_sum id (\<lambda>p. f_to (fst p)) (parseRequest example_runtime (json_request valid_json_body))
     = Inr (JArr [JStr (js ''a@x.com''), JStr (js ''b@x.com'')])"
  by code_simp

text \<open>
  A JSON body whose \<open>to\<close> is the text \<open>a@x.com,b@x.com\<close> rather than a list: the text has
  a length and no \<open>every\<close>, and the response is the 500 of the \<open>catch\<close> block.
\<close>

lemma json_to_string_throws:
  "POST rt env (json_request (json_body (JStr (js ''me@x.com'')) (JStr (js ''a@x.com,b@x.com''))))
     = (caught (type_error rt ''to.every'' (JStr (js ''a@x.com,b@x.com''))), [])"
proof -
  have v: "js ''me@x.com'' \<noteq> []" "isValidEmail (js ''me@x.com'')" "js ''a@x.com,b@x.com'' \<noteq> []"
    by code_simp+
  then show ?thesis
    by (simp add: POST_def parseRequest_json_body or_else_def)
qed


section \<open>The submit gate\<close>

text \<open>
  C6, with the flag for a send in progress. The submit button is enabled exactly when
  \<open>from\<close> passes \<open>isValidEmail\<close>, \<open>to\<close> is not empty and each of its entries passes, the
  trimmed \<open>subject\<close> is not empty, and no send is in progress. When the three conditions
  on the fields hold, \<open>onSubmit\<close> issues one request, the \<open>POST\<close> of the form to
  \<open>/api/send-email\<close>; when one of them fails it returns at once: the state is unchanged
  and no request is issued.
\<close>

theorem submit_enabled_iff:
  "(\<not> submit_disabled s \<longleftrightarrow>
      isValidEmail (c_from s) \<and> c_to s \<noteq> [] \<and> list_all isValidEmail (c_to s)
      \<and> trim (c_subject s) \<noteq> [] \<and> \<not> isSending s)
   \<and> (isValidEmail (c_from s) \<and> c_to s \<noteq> [] \<and> list_all isValidEmail (c_to s)
      \<and> trim (c_subject s) \<noteq> [] \<longrightarrow>
        snd (onSubmit fetch s) =
          [\<lparr>url = js ''/api/send-email'', http_method = js ''POST'',
            form_body = submit_form s\<rparr>])
   \<and> (\<not> (isValidEmail (c_from s) \<and> c_to s \<noteq> [] \<and> list_all isValidEmail (c_to s)
         \<and> trim (c_subject s) \<noteq> []) \<longrightarrow>
        onSubmit fetch s = (s, []))"
  by (auto simp: canSubmit_def submit_disabled_def onSubmit_def Let_def)

theorem submit_enabled_iff_witness:
  "\<not> submit_disabled valid_composer
   \<and> snd (onSubmit (\<lambda>rq. Inl NotAnError) valid_composer) =
       [\<lparr>url = js ''/api/send-email'', http_method = js ''POST'',
         form_body = submit_form valid_composer\<rparr>]
   \<and> submit_disabled (valid_composer\<lparr>c_subject := js ''   ''\<rparr>)
   \<and> onSubmit (\<lambda>rq. Inl NotAnError) (valid_composer\<lparr>c_subject := js ''   ''\<rparr>)
       = (valid_composer\<lparr>c_subject := js ''   ''\<rparr>, [])"
proof -
  have 1: "isValidEmail (c_from valid_composer)" "c_to valid_composer \<noteq> []"
    "list_all isValidEmail (c_to valid_composer)" "trim (c_subject valid_composer) \<noteq> []"
    "\<not> isSending valid_composer"
    by code_simp+
  have 2: "trim (c_subject (valid_composer\<lparr>c_subject := js ''   ''\<rparr>)) = []"
    by code_simp
  show ?thesis
    using submit_enabled_iff[of valid_composer "\<lambda>rq. Inl NotAnError"]
      submit_enabled_iff[of "valid_composer\<lparr>c_subject := js ''   ''\<rparr>" "\<lambda>rq. Inl NotAnError"]
      1 2
    by simp
qed

text \<open>
  C6 as stated fails while a send is in progress: \<open>from\<close>, \<open>to\<close> and \<open>subject\<close> pass,
  and the submit button is disabled.
\<close>

theorem submit_disabled_while_sending_counterexample:
  "\<not> (\<not> submit_disabled sending_composer \<longleftrightarrow>
        isValidEmail (c_from sending_composer) \<and> c_to sending_composer \<noteq> []
        \<and> list_all isValidEmail (c_to sending_composer)
        \<and> trim (c_subject sending_composer) \<noteq> [])"
  by code_simp

end
